theory Spec2Isabelle
  imports Complex_Main "HOL-Library.Sublist"
begin

section \<open>JavaScript strings\<close>

text \<open>
  A JavaScript string is modelled as a \<^typ>\<open>string\<close>; a \<^typ>\<open>char\<close> stands for one
  code unit in the range U+0000 to U+00FF.  Within that range the white space that
  \<^verbatim>\<open>String.prototype.trim\<close> removes is TAB, LF, VT, FF, CR, SPACE and NBSP.
\<close>

definition newline :: char where
  "newline = CHR 0x0A"

definition is_js_space :: "char \<Rightarrow> bool" where
  "is_js_space c = (of_char c \<in> {9::nat, 10, 11, 12, 13, 32, 160})"

text \<open>\<^verbatim>\<open>s.trim()\<close>\<close>

definition js_trim :: "string \<Rightarrow> string" where
  "js_trim s = rev (dropWhile is_js_space (rev (dropWhile is_js_space s)))"

text \<open>\<^verbatim>\<open>s.toLowerCase()\<close> on the code units U+0000 to U+00FF.\<close>

definition lower_char :: "char \<Rightarrow> char" where
  "lower_char c =
     (let n = (of_char c :: nat)
      in if (65 \<le> n \<and> n \<le> 90) \<or> (192 \<le> n \<and> n \<le> 222 \<and> n \<noteq> 215)
         then char_of (n + 32) else c)"

definition toLowerCase :: "string \<Rightarrow> string" where
  "toLowerCase s = map lower_char s"

text \<open>\<^verbatim>\<open>s.split('\n')\<close>: never the empty array, a trailing newline gives a last empty piece.\<close>

fun js_split :: "string \<Rightarrow> string list" where
  "js_split [] = [[]]"
| "js_split (c # cs) =
     (if c = newline then [] # js_split cs
      else (case js_split cs of
              [] \<Rightarrow> [[c]]
            | l # ls \<Rightarrow> (c # l) # ls))"

text \<open>\<^verbatim>\<open>xs.join('\n')\<close>\<close>

fun js_join :: "string list \<Rightarrow> string" where
  "js_join [] = []"
| "js_join [x] = x"
| "js_join (x # y # ys) = x @ newline # js_join (y # ys)"

text \<open>The regular expression class \<^verbatim>\<open>\d\<close>: the ten ASCII digits.\<close>

definition is_digit :: "char \<Rightarrow> bool" where
  "is_digit c = (48 \<le> (of_char c :: nat) \<and> (of_char c :: nat) \<le> 57)"

fun strip_prefix :: "string \<Rightarrow> string \<Rightarrow> string option" where
  "strip_prefix [] s = Some s"
| "strip_prefix (p # ps) [] = None"
| "strip_prefix (p # ps) (c # cs) = (if p = c then strip_prefix ps cs else None)"

text \<open>
  The filter of \<^verbatim>\<open>scrapeUrlsForKeyword\<close>:
  \<^verbatim>\<open>/^https:\/\/x\.com\/[^\/]+\/status\/\d+$/.test(href)\<close>.
  The class \<^verbatim>\<open>[^\/]\<close> excludes the slash only, so the user segment is the longest
  slash-free run after the host; without the \<^verbatim>\<open>m\<close> flag \<^verbatim>\<open>$\<close> is the end of the string.
\<close>

definition is_tweet_url :: "string \<Rightarrow> bool" where
  "is_tweet_url href =
     (case strip_prefix ''https://x.com/'' href of
        None \<Rightarrow> False
      | Some rest \<Rightarrow>
          takeWhile (\<lambda>c. c \<noteq> CHR ''/'') rest \<noteq> [] \<and>
          (case strip_prefix ''/status/'' (dropWhile (\<lambda>c. c \<noteq> CHR ''/'') rest) of
             None \<Rightarrow> False
           | Some ds \<Rightarrow> ds \<noteq> [] \<and> list_all is_digit ds))"

text \<open>
  \<^verbatim>\<open>tweetUrl.match(/status\/(\d+)/)\<close> of \<^verbatim>\<open>replyToTweet\<close>: an unanchored search for the
  leftmost \<^verbatim>\<open>status/\<close> that a digit follows; the group is the longest run of digits
  there.  \<open>None\<close> is the \<^verbatim>\<open>null\<close> of a failed match, \<open>Some ds\<close> carries \<^verbatim>\<open>match[1]\<close>.
\<close>

fun match_status :: "string \<Rightarrow> string option" where
  "match_status [] = None"
| "match_status (c # cs) =
     (case strip_prefix ''status/'' (c # cs) of
        None \<Rightarrow> match_status cs
      | Some rest \<Rightarrow>
          (case takeWhile is_digit rest of
             [] \<Rightarrow> match_status cs
           | d # ds \<Rightarrow> Some (d # ds)))"

section \<open>JavaScript sets\<close>

text \<open>
  A \<^verbatim>\<open>Set\<close> of strings iterates in insertion order, so it is a list without repetition;
  \<^verbatim>\<open>set.add(x)\<close> appends \<open>x\<close> unless it is present.  \<^verbatim>\<open>Array.from(new Set(xs))\<close> adds the
  elements of \<open>xs\<close> from left to right to the empty set.
\<close>

definition set_add :: "string list \<Rightarrow> string \<Rightarrow> string list" where
  "set_add s x = (if x \<in> set s then s else s @ [x])"

definition add_all :: "string list \<Rightarrow> string list \<Rightarrow> string list" where
  "add_all s xs = foldl set_add s xs"

definition new_Set :: "string list \<Rightarrow> string list" where
  "new_Set xs = add_all [] xs"

section \<open>Results of calls that can throw\<close>

datatype 'a outcome = Thrown | Returned 'a

section \<open>The scraper\<close>

definition maxTweetsPerKeyword :: nat where
  "maxTweetsPerKeyword = 100"

definition maxScrollTries :: nat where
  "maxScrollTries = 20"

definition targetKeywords :: "string list" where
  "targetKeywords = [''Giverep'', ''giverep'']"

text \<open>
  What the page shows while one keyword is scraped.  Every awaited Puppeteer call can
  reject; \<open>None\<close> and \<open>False\<close> are the rejections.  \<open>anchors i\<close> is the list of
  \<^verbatim>\<open>link.href\<close> of the links selected by the \<open>i\<close>-th \<^verbatim>\<open>$$eval\<close>, in document order,
  \<open>heights i\<close> the \<^verbatim>\<open>newHeight\<close> measured in that iteration.  The wait for the first
  tweets swallows its rejection and changes nothing; it, the console output of \<^verbatim>\<open>logAny\<close>
  and the lengths of the waits are not modelled.
\<close>

record page_env =
  goto_ok :: bool
  first_height :: "int option"
  anchors :: "nat \<Rightarrow> string list option"
  scroll_ok :: "nat \<Rightarrow> bool"
  heights :: "nat \<Rightarrow> int option"
  screenshot_ok :: bool

text \<open>The callback of \<^verbatim>\<open>page.$$eval\<close>.\<close>

definition page_urls :: "string list \<Rightarrow> string list" where
  "page_urls hrefs = new_Set (filter is_tweet_url hrefs)"

text \<open>
  The variables of the \<^verbatim>\<open>while\<close> loop; \<open>iter\<close> counts the loop bodies entered and
  indexes the observations of the page.
\<close>

record loop_state =
  tweetUrlSet :: "string list"
  lastHeight :: int
  scrollTries :: nat
  iter :: nat

partial_function (option) scrape_loop :: "page_env \<Rightarrow> loop_state \<Rightarrow> loop_state outcome option" where
  "scrape_loop env st =
     (if length (tweetUrlSet st) < maxTweetsPerKeyword \<and> scrollTries st < maxScrollTries then
        (case anchors env (iter st) of
           None \<Rightarrow> Some Thrown
         | Some hrefs \<Rightarrow>
             (if maxTweetsPerKeyword \<le> length (add_all (tweetUrlSet st) (page_urls hrefs)) then
                Some (Returned (st\<lparr>tweetUrlSet := add_all (tweetUrlSet st) (page_urls hrefs),
                                   iter := iter st + 1\<rparr>))
              else if \<not> scroll_ok env (iter st) then Some Thrown
              else
                (case heights env (iter st) of
                   None \<Rightarrow> Some Thrown
                 | Some newHeight \<Rightarrow>
                     (if newHeight = lastHeight st then
                        scrape_loop env
                          (st\<lparr>tweetUrlSet := add_all (tweetUrlSet st) (page_urls hrefs),
                              scrollTries := scrollTries st + 1,
                              iter := iter st + 1\<rparr>)
                      else
                        scrape_loop env
                          (st\<lparr>tweetUrlSet := add_all (tweetUrlSet st) (page_urls hrefs),
                              lastHeight := newHeight,
                              scrollTries := 0,
                              iter := iter st + 1\<rparr>)))))
      else Some (Returned st))"

declare scrape_loop.simps [code]

definition initial_state :: "int \<Rightarrow> loop_state" where
  "initial_state h = \<lparr>tweetUrlSet = [], lastHeight = h, scrollTries = 0, iter = 0\<rparr>"

text \<open>
  \<^verbatim>\<open>scrapeUrlsForKeyword\<close>.  A failed navigation is caught and gives the empty array;
  every other rejection leaves the function.  \<open>None\<close> is a call that never returns.
\<close>

definition scrapeUrlsForKeyword :: "page_env \<Rightarrow> string list outcome option" where
  "scrapeUrlsForKeyword env =
     (if \<not> goto_ok env then Some (Returned [])
      else
        (case first_height env of
           None \<Rightarrow> Some Thrown
         | Some h \<Rightarrow>
             (case scrape_loop env (initial_state h) of
                None \<Rightarrow> None
              | Some Thrown \<Rightarrow> Some Thrown
              | Some (Returned st) \<Rightarrow>
                  (if tweetUrlSet st = [] \<and> \<not> screenshot_ok env then Some Thrown
                   else Some (Returned (take maxTweetsPerKeyword (tweetUrlSet st)))))))"

text \<open>
  How a Node process ends: \<^verbatim>\<open>process.exit(n)\<close> or the end of the work with code 0,
  an exception that leaves the module's top level, or the rejection of the promise of
  \<^verbatim>\<open>main()\<close>, which nothing handles.
\<close>

datatype proc_end = Exit nat | UncaughtException | UnhandledRejection

text \<open>
  The world of the scraper's \<^verbatim>\<open>main\<close>: whether \<^verbatim>\<open>initializeBrowser\<close> and
  \<^verbatim>\<open>browser.close\<close> resolve, and what the page shows for each keyword.  Calls of
  \<^verbatim>\<open>fs\<close> on the working directory are taken to succeed.
\<close>

record scraper_world =
  init_ok :: bool
  pages :: "string \<Rightarrow> page_env"
  close_ok :: bool

text \<open>
  What a run of the scraper leaves behind: whether a browser was asked for, the text
  written to \<^verbatim>\<open>tweets_to_reply.txt\<close> (\<open>None\<close>: \<^verbatim>\<open>writeFileSync\<close> was not called), and
  how the process ended.
\<close>

record scraper_run =
  launched :: bool
  output_file :: "string option"
  ending :: proc_end

text \<open>The \<^verbatim>\<open>for\<close> loop of \<^verbatim>\<open>main\<close> over the keywords, with \<^verbatim>\<open>allUrls\<close> as accumulator.\<close>

fun scrape_all :: "(string \<Rightarrow> page_env) \<Rightarrow> string list \<Rightarrow> string list \<Rightarrow> string list outcome option" where
  "scrape_all pgs [] allUrls = Some (Returned allUrls)"
| "scrape_all pgs (keyword # rest) allUrls =
     (case scrapeUrlsForKeyword (pgs keyword) of
        None \<Rightarrow> None
      | Some Thrown \<Rightarrow> Some Thrown
      | Some (Returned urls) \<Rightarrow> scrape_all pgs rest (add_all allUrls urls))"

definition keywords_of :: "string list \<Rightarrow> string list" where
  "keywords_of kws = new_Set (map toLowerCase kws)"

text \<open>\<^verbatim>\<open>main\<close> of the scraper, for any keyword table; the script runs it on \<open>targetKeywords\<close>.\<close>

definition scraper_main :: "string list \<Rightarrow> scraper_world \<Rightarrow> scraper_run option" where
  "scraper_main kws w =
     (if \<not> init_ok w then
        Some \<lparr>launched = True, output_file = None, ending = UnhandledRejection\<rparr>
      else
        (case scrape_all (pages w) (keywords_of kws) [] of
           None \<Rightarrow> None
         | Some Thrown \<Rightarrow>
             Some \<lparr>launched = True, output_file = None, ending = UnhandledRejection\<rparr>
         | Some (Returned allUrls) \<Rightarrow>
             Some \<lparr>launched = True,
                   output_file = (if allUrls \<noteq> [] then Some (js_join allUrls) else None),
                   ending = (if close_ok w then Exit 0 else UnhandledRejection)\<rparr>))"

section \<open>The configuration files\<close>

text \<open>
  The value of \<^verbatim>\<open>JSON.parse\<close>.  The parser itself is a parameter \<open>parse\<close> of the scripts,
  with \<open>None\<close> for its \<^verbatim>\<open>SyntaxError\<close>.
\<close>

datatype json =
    JNull
  | JBool bool
  | JNumber real
  | JString string
  | JArray "json list"
  | JObject "(string \<times> json) list"

text \<open>
  \<^verbatim>\<open>authData.name\<close>: a \<^verbatim>\<open>TypeError\<close> on \<^verbatim>\<open>null\<close>, the member of an object,
  \<^verbatim>\<open>undefined\<close> (\<open>None\<close>) otherwise.
\<close>

fun get_prop :: "json \<Rightarrow> string \<Rightarrow> json option outcome" where
  "get_prop JNull name = Thrown"
| "get_prop (JObject members) name = Returned (map_of members name)"
| "get_prop v name = Returned None"

fun truthy :: "json option \<Rightarrow> bool" where
  "truthy None = False"
| "truthy (Some JNull) = False"
| "truthy (Some (JBool b)) = b"
| "truthy (Some (JNumber x)) = (x \<noteq> 0)"
| "truthy (Some (JString s)) = (s \<noteq> [])"
| "truthy (Some (JArray xs)) = True"
| "truthy (Some (JObject members)) = True"

datatype auth_check = Auth_ok | Auth_exit | Auth_throws

text \<open>
  Reading \<^verbatim>\<open>auth.json\<close> once it exists:
  \<^verbatim>\<open>if (!authData.auth_token || !authData.ct0) process.exit(1)\<close>.
\<close>

definition check_auth :: "(string \<Rightarrow> json option) \<Rightarrow> string \<Rightarrow> auth_check" where
  "check_auth parse text =
     (case parse text of
        None \<Rightarrow> Auth_throws
      | Some authData \<Rightarrow>
          (case get_prop authData ''auth_token'' of
             Thrown \<Rightarrow> Auth_throws
           | Returned token \<Rightarrow>
               (if \<not> truthy token then Auth_exit
                else
                  (case get_prop authData ''ct0'' of
                     Thrown \<Rightarrow> Auth_throws
                   | Returned ct0 \<Rightarrow> (if \<not> truthy ct0 then Auth_exit else Auth_ok)))))"

text \<open>The scraper script from its first line: the check of \<^verbatim>\<open>auth.json\<close>, then \<^verbatim>\<open>main()\<close>.\<close>

definition scraper_script ::
  "(string \<Rightarrow> json option) \<Rightarrow> string option \<Rightarrow> scraper_world \<Rightarrow> scraper_run option" where
  "scraper_script parse auth_file w =
     (case auth_file of
        None \<Rightarrow> Some \<lparr>launched = False, output_file = None, ending = Exit 1\<rparr>
      | Some text \<Rightarrow>
          (case check_auth parse text of
             Auth_throws \<Rightarrow>
               Some \<lparr>launched = False, output_file = None, ending = UncaughtException\<rparr>
           | Auth_exit \<Rightarrow> Some \<lparr>launched = False, output_file = None, ending = Exit 1\<rparr>
           | Auth_ok \<Rightarrow> scraper_main targetKeywords w))"

section \<open>The dispatcher\<close>

definition userAgents :: "string list" where
  "userAgents =
     [''Mozilla/5.0 (Windows NT 10.0; Win64; x64) AppleWebKit/537.36 (KHTML, like Gecko) Chrome/124.0.0.0 Safari/537.36'',
      ''Mozilla/5.0 (X11; Linux x86_64) AppleWebKit/537.36 (KHTML, like Gecko) Chrome/123.0.0.0 Safari/537.36'',
      ''Mozilla/5.0 (Macintosh; Intel Mac OS X 10_15_7) AppleWebKit/605.1.15 (KHTML, like Gecko) Version/17.0 Safari/605.1.15'']"

text \<open>
  \<^verbatim>\<open>xs[Math.floor(r * xs.length)]\<close> for a draw \<open>r\<close> of \<^verbatim>\<open>Math.random()\<close>, the
  product taken exactly; a read outside the array is \<^verbatim>\<open>undefined\<close>, here \<open>None\<close>.
\<close>

definition random_pick :: "string list \<Rightarrow> real \<Rightarrow> string option" where
  "random_pick xs r =
     (let i = \<lfloor>r * real (length xs)\<rfloor>
      in if 0 \<le> i \<and> i < int (length xs) then Some (xs ! nat i) else None)"

definition getRandomUserAgent :: "real \<Rightarrow> string option" where
  "getRandomUserAgent r = random_pick userAgents r"

definition getCannedReply :: "string list \<Rightarrow> real \<Rightarrow> string option" where
  "getCannedReply cannedComments r = random_pick cannedComments r"

text \<open>\<^verbatim>\<open>Math.floor(Math.random() * 7000) + 5000\<close>, in milliseconds.\<close>

definition replyDelay :: "real \<Rightarrow> int" where
  "replyDelay r = \<lfloor>r * 7000\<rfloor> + 5000"

text \<open>
  \<^verbatim>\<open>fs.readFileSync(file, 'utf-8').split('\n').map(line => line.trim()).filter(Boolean)\<close>:
  the empty string is the only string that \<^verbatim>\<open>Boolean\<close> maps to \<^verbatim>\<open>false\<close>.
\<close>

definition read_lines :: "string \<Rightarrow> string list" where
  "read_lines text = filter (\<lambda>line. line \<noteq> []) (map js_trim (js_split text))"

subsection \<open>The submit control\<close>

text \<open>
  What the callback of \<^verbatim>\<open>clickReplyButtonByLabel\<close> reads of a candidate element:
  \<^verbatim>\<open>textContent\<close>, the attributes \<^verbatim>\<open>aria-label\<close> and \<^verbatim>\<open>aria-disabled\<close> (\<open>None\<close> when
  absent), the computed \<^verbatim>\<open>visibility\<close> and \<^verbatim>\<open>display\<close>, and whether \<^verbatim>\<open>btn.disabled\<close> is
  truthy.
\<close>

record element =
  textContent :: string
  aria_label :: "string option"
  visibility :: string
  display :: string
  disabled :: bool
  aria_disabled :: "string option"

definition isVisibleAndEnabled :: "element \<Rightarrow> bool" where
  "isVisibleAndEnabled btn =
     (visibility btn \<noteq> ''hidden'' \<and>
      display btn \<noteq> ''none'' \<and>
      \<not> disabled btn \<and>
      (aria_disabled btn = None \<or> aria_disabled btn = Some ''false''))"

definition text_of :: "element \<Rightarrow> string" where
  "text_of btn = (if textContent btn \<noteq> [] then toLowerCase (js_trim (textContent btn)) else [])"

definition label_of :: "element \<Rightarrow> string" where
  "label_of btn =
     (case aria_label btn of
        None \<Rightarrow> []
      | Some l \<Rightarrow> (if l \<noteq> [] then toLowerCase (js_trim l) else []))"

text \<open>
  The \<^verbatim>\<open>for\<close> loop over the candidates, \<open>i\<close> being the position of the head of the list
  in the document order of \<^verbatim>\<open>querySelectorAll\<close>.  \<open>Some k\<close>: the candidate at \<open>k\<close> was
  clicked and the function returned \<^verbatim>\<open>true\<close>; \<open>None\<close>: it returned \<^verbatim>\<open>false\<close>.
\<close>

fun click_from :: "nat \<Rightarrow> element list \<Rightarrow> nat option" where
  "click_from i [] = None"
| "click_from i (btn # rest) =
     (if (text_of btn = ''reply'' \<or> label_of btn = ''reply'') \<and> isVisibleAndEnabled btn
      then Some i
      else click_from (i + 1) rest)"

definition clickReplyButtonByLabel :: "element list \<Rightarrow> nat option" where
  "clickReplyButtonByLabel candidates = click_from 0 candidates"

subsection \<open>One reply\<close>

datatype selector = Article | Reply_control | Tweet_textarea

datatype log =
    Missing_tweets_file
  | Missing_comments_file
  | Missing_auth_file
  | Auth_fields_missing
  | Could_not_extract_tweetId string
  | Opening_tweet string
  | Article_did_not_load
  | Reply_button_clicked string
  | Reply_button_not_found string
  | Replied_to_tweet string
  | Error_replying string
  | Preparing_to_reply string "string option"
  | Failed_to_reply string
  | Waiting int
  | Exited_gracefully

text \<open>
  What the dispatcher does to the outside, in order: its lines on the console (each
  constructor of \<open>log\<close> is one message of the source with the values it interpolates, the
  text of a caught exception left out), the Puppeteer calls and the waits.  A call that
  rejects is in the trace as well.
\<close>

datatype event =
    Log_info log
  | Log_error log
  | Launch
  | New_page
  | Set_user_agent "string option"
  | Goto string
  | Wait_for selector
  | Scroll_into_view
  | Click selector
  | Type_text selector "string option"
  | Click_by_label "nat option"
  | Screenshot string
  | Close_page
  | Sleep int
  | Close_browser

fun is_log :: "event \<Rightarrow> bool" where
  "is_log (Log_info m) = True"
| "is_log (Log_error m) = True"
| "is_log e = False"

type_synonym 'a run = "'a outcome \<times> event list"

text \<open>An awaited call that can reject, and a step that cannot, each before the rest \<open>k\<close>.\<close>

definition call :: "bool \<Rightarrow> event \<Rightarrow> 'a run \<Rightarrow> 'a run" where
  "call ok ev k = (if ok then (fst k, ev # snd k) else (Thrown, [ev]))"

definition emit :: "event \<Rightarrow> 'a run \<Rightarrow> 'a run" where
  "emit ev k = (fst k, ev # snd k)"

text \<open>
  What happens to one item: the three draws of \<^verbatim>\<open>Math.random()\<close>, for each awaited call
  of \<^verbatim>\<open>replyToTweet\<close> whether it resolves, and the candidates that the dialog holds when
  \<^verbatim>\<open>clickReplyButtonByLabel\<close> runs (\<open>None\<close>: \<^verbatim>\<open>page.evaluate\<close> rejects).
\<close>

record item_env =
  reply_draw :: real
  agent_draw :: real
  delay_draw :: real
  new_page_ok :: bool
  set_agent_ok :: bool
  nav_ok :: bool
  article_ok :: bool
  no_article_shot_ok :: bool
  no_article_close_ok :: bool
  scroll_view_ok :: bool
  reply_control_ok :: bool
  reply_click_ok :: bool
  textarea_ok :: bool
  type_ok :: bool
  dialog :: "element list option"
  error_shot_ok :: bool
  error_close_ok :: bool
  sent_shot_ok :: bool
  sent_close_ok :: bool
  catch_shot_ok :: bool
  catch_close_ok :: bool

text \<open>The end of the \<^verbatim>\<open>try\<close> block, from \<^verbatim>\<open>clickReplyButtonByLabel\<close> on.\<close>

definition submit_reply :: "item_env \<Rightarrow> string \<Rightarrow> string \<Rightarrow> bool run" where
  "submit_reply e tweetId replyUrl =
     (case dialog e of
        None \<Rightarrow> (Thrown, [Click_by_label None])
      | Some candidates \<Rightarrow>
          (case clickReplyButtonByLabel candidates of
             None \<Rightarrow>
               emit (Click_by_label None)
               (emit (Log_error (Reply_button_not_found tweetId))
               (call (error_shot_ok e) (Screenshot (''reply_error_'' @ tweetId @ ''.png''))
               (call (error_close_ok e) Close_page
               (Returned False, []))))
           | Some k \<Rightarrow>
               emit (Click_by_label (Some k))
               (emit (Log_info (Reply_button_clicked tweetId))
               (emit (Sleep 3000)
               (call (sent_shot_ok e) (Screenshot (''reply_sent_'' @ tweetId @ ''.png''))
               (call (sent_close_ok e) Close_page
               (emit (Log_info (Replied_to_tweet replyUrl))
               (Returned True, []))))))))"

text \<open>The \<^verbatim>\<open>try\<close> block of \<^verbatim>\<open>replyToTweet\<close>; \<open>Thrown\<close> is what its \<^verbatim>\<open>catch\<close> receives.\<close>

definition try_block :: "item_env \<Rightarrow> string \<Rightarrow> string \<Rightarrow> string option \<Rightarrow> bool run" where
  "try_block e tweetId replyUrl replyText =
     call (nav_ok e) (Goto replyUrl)
     (emit (Wait_for Article)
     (if \<not> article_ok e then
        emit (Log_error Article_did_not_load)
        (call (no_article_shot_ok e) (Screenshot (''no_article_'' @ tweetId @ ''.png''))
        (call (no_article_close_ok e) Close_page
        (Returned False, [])))
      else
        emit (Sleep 1000)
        (call (scroll_view_ok e) Scroll_into_view
        (emit (Sleep 800)
        (call (reply_control_ok e) (Wait_for Reply_control)
        (call (reply_click_ok e) (Click Reply_control)
        (emit (Sleep 1000)
        (call (textarea_ok e) (Wait_for Tweet_textarea)
        (call (type_ok e) (Type_text Tweet_textarea replyText)
        (submit_reply e tweetId replyUrl))))))))))"

text \<open>The \<^verbatim>\<open>catch (e)\<close> block of \<^verbatim>\<open>replyToTweet\<close>.\<close>

definition catch_block :: "item_env \<Rightarrow> string \<Rightarrow> string \<Rightarrow> bool run" where
  "catch_block e tweetUrl tweetId =
     emit (Log_error (Error_replying tweetUrl))
     (call (catch_shot_ok e) (Screenshot (''reply_error_'' @ tweetId @ ''.png''))
     (call (catch_close_ok e) Close_page
     (Returned False, [])))"

definition try_catch :: "bool run \<Rightarrow> bool run \<Rightarrow> bool run" where
  "try_catch body handler =
     (case fst body of
        Returned b \<Rightarrow> body
      | Thrown \<Rightarrow> (fst handler, snd body @ snd handler))"

definition replyToTweet :: "item_env \<Rightarrow> string \<Rightarrow> string option \<Rightarrow> bool run" where
  "replyToTweet e tweetUrl replyText =
     (case match_status tweetUrl of
        None \<Rightarrow> (Returned False, [Log_error (Could_not_extract_tweetId tweetUrl)])
      | Some tweetId \<Rightarrow>
          emit (Log_info (Opening_tweet (''https://x.com/i/web/status/'' @ tweetId)))
          (call (new_page_ok e) New_page
          (call (set_agent_ok e) (Set_user_agent (getRandomUserAgent (agent_draw e)))
          (try_catch
             (try_block e tweetId (''https://x.com/i/web/status/'' @ tweetId) replyText)
             (catch_block e tweetUrl tweetId)))))"

subsection \<open>The batch\<close>

text \<open>
  The \<^verbatim>\<open>for\<close> loop of the dispatcher's \<^verbatim>\<open>main\<close>; \<open>its i\<close> is what happens to the
  \<open>i\<close>-th item of the list.  The value returned is the list of the \<^verbatim>\<open>success\<close> values that
  \<^verbatim>\<open>main\<close> received, one for each iteration, in order.
\<close>

fun reply_all :: "(nat \<Rightarrow> item_env) \<Rightarrow> string list \<Rightarrow> nat \<Rightarrow> string list \<Rightarrow> bool list run" where
  "reply_all its cannedComments i [] = (Returned [], [])"
| "reply_all its cannedComments i (tweetUrl # rest) =
     (let replyText = getCannedReply cannedComments (reply_draw (its i));
          attempt = replyToTweet (its i) tweetUrl replyText;
          pause = replyDelay (delay_draw (its i))
      in case fst attempt of
           Thrown \<Rightarrow> (Thrown, Log_info (Preparing_to_reply tweetUrl replyText) # snd attempt)
         | Returned success \<Rightarrow>
             (case reply_all its cannedComments (i + 1) rest of
                (later, trace) \<Rightarrow>
                  ((case later of Thrown \<Rightarrow> Thrown | Returned bs \<Rightarrow> Returned (success # bs)),
                   Log_info (Preparing_to_reply tweetUrl replyText) # snd attempt
                   @ (if \<not> success then [Log_error (Failed_to_reply tweetUrl)] else [])
                   @ [Log_info (Waiting pause), Sleep pause]
                   @ trace)))"

record dispatcher_world =
  browser_ok :: bool
  items :: "nat \<Rightarrow> item_env"
  browser_close_ok :: bool

record dispatcher_run =
  events :: "event list"
  finish :: proc_end

text \<open>
  \<^verbatim>\<open>main\<close> of the dispatcher.  \<^verbatim>\<open>initializeBrowser\<close> is one step: the event \<open>Launch\<close>
  stands for its launch, navigation, cookie and reload calls, \<open>browser_ok\<close> says whether
  all of them resolve.
\<close>

definition dispatcher_main :: "string list \<Rightarrow> string list \<Rightarrow> dispatcher_world \<Rightarrow> dispatcher_run" where
  "dispatcher_main tweetUrls cannedComments w =
     (if \<not> browser_ok w then \<lparr>events = [Launch], finish = UnhandledRejection\<rparr>
      else
        (case reply_all (items w) cannedComments 0 tweetUrls of
           (Thrown, trace) \<Rightarrow> \<lparr>events = Launch # trace, finish = UnhandledRejection\<rparr>
         | (Returned bs, trace) \<Rightarrow>
             (if browser_close_ok w then
                \<lparr>events = Launch # trace @ [Close_browser, Log_info Exited_gracefully],
                 finish = Exit 0\<rparr>
              else
                \<lparr>events = Launch # trace @ [Close_browser], finish = UnhandledRejection\<rparr>)))"

text \<open>The files of the working directory that the dispatcher reads; \<open>None\<close>: no such file.\<close>

record dispatcher_files =
  tweets_file :: "string option"
  comments_file :: "string option"
  auth_json :: "string option"

text \<open>The dispatcher script from its first line.\<close>

definition dispatcher_script ::
  "(string \<Rightarrow> json option) \<Rightarrow> dispatcher_files \<Rightarrow> dispatcher_world \<Rightarrow> dispatcher_run" where
  "dispatcher_script parse files w =
     (case tweets_file files of
        None \<Rightarrow> \<lparr>events = [Log_error Missing_tweets_file], finish = Exit 1\<rparr>
      | Some tweets \<Rightarrow>
          (case comments_file files of
             None \<Rightarrow> \<lparr>events = [Log_error Missing_comments_file], finish = Exit 1\<rparr>
           | Some comments \<Rightarrow>
               (case auth_json files of
                  None \<Rightarrow> \<lparr>events = [Log_error Missing_auth_file], finish = Exit 1\<rparr>
                | Some auth \<Rightarrow>
                    (case check_auth parse auth of
                       Auth_throws \<Rightarrow> \<lparr>events = [], finish = UncaughtException\<rparr>
                     | Auth_exit \<Rightarrow>
                         \<lparr>events = [Log_error Auth_fields_missing], finish = Exit 1\<rparr>
                     | Auth_ok \<Rightarrow>
                         dispatcher_main (read_lines tweets) (read_lines comments) w))))"

section \<open>Notions for the statements\<close>

text \<open>
  The submit control in the words of the specification: the visible text or the
  accessible label equals \<^verbatim>\<open>reply\<close> up to case, and the element is visible, not
  disabled and not marked disabled for accessibility.  The visible text and the label are
  read as \<^verbatim>\<open>textContent\<close> and \<^verbatim>\<open>aria-label\<close> without surrounding white space; visible
  means that the computed \<^verbatim>\<open>visibility\<close> is not \<^verbatim>\<open>hidden\<close> and the computed \<^verbatim>\<open>display\<close> is
  not \<^verbatim>\<open>none\<close>; an \<^verbatim>\<open>aria-disabled\<close> attribute marks the element unless its value is
  \<^verbatim>\<open>false\<close>.
\<close>

definition spec_submit_control :: "element \<Rightarrow> bool" where
  "spec_submit_control b =
     ((toLowerCase (js_trim (textContent b)) = ''reply'' \<or>
       (case aria_label b of None \<Rightarrow> False | Some l \<Rightarrow> toLowerCase (js_trim l) = ''reply'')) \<and>
      visibility b \<noteq> ''hidden'' \<and> display b \<noteq> ''none'' \<and> \<not> disabled b \<and>
      (case aria_disabled b of None \<Rightarrow> True | Some v \<Rightarrow> v = ''false''))"

text \<open>The event with which \<^verbatim>\<open>main\<close> announces a reply attempt.\<close>

fun announces :: "event \<Rightarrow> bool" where
  "announces (Log_info (Preparing_to_reply u t)) = True"
| "announces e = False"

text \<open>
  Every call of \<^verbatim>\<open>replyToTweet\<close> before \<^verbatim>\<open>clickReplyButtonByLabel\<close> resolves, so that
  the item gets as far as the search for the submit control.
\<close>

definition reaches_submit :: "item_env \<Rightarrow> bool" where
  "reaches_submit e =
     (new_page_ok e \<and> set_agent_ok e \<and> nav_ok e \<and> article_ok e \<and> scroll_view_ok e \<and>
      reply_control_ok e \<and> reply_click_ok e \<and> textarea_ok e \<and> type_ok e)"

text \<open>
  \<^verbatim>\<open>auth.json\<close> parses to an object that has no member \<^verbatim>\<open>auth_token\<close> or no member
  \<^verbatim>\<open>ct0\<close>.
\<close>

definition lacks_auth_field :: "(string \<Rightarrow> json option) \<Rightarrow> string \<Rightarrow> bool" where
  "lacks_auth_field parse text =
     (case parse text of
        Some (JObject members) \<Rightarrow>
          map_of members ''auth_token'' = None \<or> map_of members ''ct0'' = None
      | _ \<Rightarrow> False)"

text \<open>The elements of a list without repetition, in the order of their first occurrence.\<close>

definition first_seen :: "string list \<Rightarrow> string list" where
  "first_seen xs = rev (remdups (rev xs))"

text \<open>
  The links that pass the filter in the \<open>i\<close>-th reading of the page, in document order, and
  those of the readings \<open>a\<close> up to \<open>b - 1\<close> in the order in which the loop meets them.
\<close>

definition batch :: "page_env \<Rightarrow> nat \<Rightarrow> string list" where
  "batch env i = (case anchors env i of None \<Rightarrow> [] | Some hrefs \<Rightarrow> filter is_tweet_url hrefs)"

definition seen_urls :: "page_env \<Rightarrow> nat \<Rightarrow> nat \<Rightarrow> string list" where
  "seen_urls env a b = concat (map (batch env) [a..<b])"

text \<open>
  The scroll height that the loop holds in \<^verbatim>\<open>lastHeight\<close> when it enters its \<open>k\<close>-th
  iteration, counted from 0: the first measurement \<open>h\<close>, or the one made in the iteration
  before.
\<close>

definition height_before :: "page_env \<Rightarrow> int \<Rightarrow> nat \<Rightarrow> int option" where
  "height_before env h k = (if k = 0 then Some h else heights env (k - 1))"

text \<open>The variables after a loop body that has run to its end without leaving the loop.\<close>

definition next_state :: "page_env \<Rightarrow> loop_state \<Rightarrow> loop_state" where
  "next_state env st =
     st\<lparr>tweetUrlSet := add_all (tweetUrlSet st) (batch env (iter st)),
        lastHeight := (case heights env (iter st) of None \<Rightarrow> lastHeight st | Some h \<Rightarrow> h),
        scrollTries := (if heights env (iter st) = Some (lastHeight st) then scrollTries st + 1 else 0),
        iter := iter st + 1\<rparr>"

section \<open>Concrete inputs\<close>

text \<open>A dialog button that reads Reply, and an item for which every call resolves.\<close>

definition reply_button :: element where
  "reply_button =
     \<lparr>textContent = ''Reply'', aria_label = None, visibility = ''visible'',
      display = ''flex'', disabled = False, aria_disabled = None\<rparr>"

definition smooth_item :: item_env where
  "smooth_item =
     \<lparr>reply_draw = 0, agent_draw = 1 / 2, delay_draw = 1 / 2,
      new_page_ok = True, set_agent_ok = True, nav_ok = True, article_ok = True,
      no_article_shot_ok = True, no_article_close_ok = True, scroll_view_ok = True,
      reply_control_ok = True, reply_click_ok = True, textarea_ok = True, type_ok = True,
      dialog = Some [reply_button],
      error_shot_ok = True, error_close_ok = True, sent_shot_ok = True, sent_close_ok = True,
      catch_shot_ok = True, catch_close_ok = True\<rparr>"

text \<open>A button that reads Reply but is hidden, and an item whose dialog holds only that one.\<close>

definition hidden_button :: element where
  "hidden_button = reply_button\<lparr>visibility := ''hidden''\<rparr>"

definition stuck_item :: item_env where
  "stuck_item = smooth_item\<lparr>dialog := Some [hidden_button]\<rparr>"

text \<open>A stand-in for \<^verbatim>\<open>JSON.parse\<close> on three texts, the files of a run and its world.\<close>

definition sample_parse :: "string \<Rightarrow> json option" where
  "sample_parse text =
     (if text = ''{}'' then Some (JObject [])
      else if text = ''null'' then Some JNull
      else if text = ''{auth}'' then Some (JObject [(''auth_token'', JString ''a1''), (''ct0'', JString ''c1'')])
      else None)"

definition sample_files :: dispatcher_files where
  "sample_files =
     \<lparr>tweets_file = Some (''https://x.com/home'' @ [newline] @ ''  '' @ [newline]),
      comments_file = Some ('' gm '' @ [newline] @ [newline]),
      auth_json = Some ''{auth}''\<rparr>"

definition sample_world :: dispatcher_world where
  "sample_world = \<lparr>browser_ok = True, items = (\<lambda>i. smooth_item), browser_close_ok = True\<rparr>"

text \<open>
  A page whose navigation fails, a page that shows the same four links at a height that
  never changes, and the two worlds in which every keyword meets such a page.
\<close>

definition offline_page :: page_env where
  "offline_page =
     \<lparr>goto_ok = False, first_height = None, anchors = (\<lambda>i. None), scroll_ok = (\<lambda>i. False),
      heights = (\<lambda>i. None), screenshot_ok = False\<rparr>"

definition still_page :: page_env where
  "still_page =
     \<lparr>goto_ok = True, first_height = Some 900,
      anchors = (\<lambda>i. Some [''https://x.com/a/status/1'', ''https://x.com/a/status/1/photo/1'',
                              ''https://x.com/b/status/22'', ''https://x.com/a/status/1'']),
      scroll_ok = (\<lambda>i. True), heights = (\<lambda>i. Some 900), screenshot_ok = True\<rparr>"

definition offline_world :: scraper_world where
  "offline_world = \<lparr>init_ok = True, pages = (\<lambda>keyword. offline_page), close_ok = True\<rparr>"

definition still_world :: scraper_world where
  "still_world = \<lparr>init_ok = True, pages = (\<lambda>keyword. still_page), close_ok = True\<rparr>"

text \<open>
  A page without matching links that is higher at every measurement; a batch in
  which the navigation of every item fails and so does the screenshot of the \<^verbatim>\<open>catch\<close>
  block; a batch in which every dialog holds the hidden button only.
\<close>

definition endless_page :: page_env where
  "endless_page =
     \<lparr>goto_ok = True, first_height = Some 0, anchors = (\<lambda>i. Some []), scroll_ok = (\<lambda>i. True),
      heights = (\<lambda>i. Some (int i + 1)), screenshot_ok = True\<rparr>"





text \<open>
  A page whose every reading shows 120 different item URLs, the \<open>k\<close>-th with an identifier
  of \<open>k + 1\<close> digits.
\<close>

definition crowded_url :: "nat \<Rightarrow> string" where
  "crowded_url k = ''https://x.com/u/status/'' @ replicate (Suc k) (CHR ''7'')"

definition crowded_links :: "string list" where
  "crowded_links = map crowded_url [0..<120]"

definition crowded_page :: page_env where
  "crowded_page =
     \<lparr>goto_ok = True, first_height = Some 900, anchors = (\<lambda>i. Some crowded_links),
      scroll_ok = (\<lambda>i. True), heights = (\<lambda>i. Some 900), screenshot_ok = True\<rparr>"

section \<open>Strings and patterns: basic facts\<close>

lemma strip_prefix_Some: "strip_prefix p s = Some r \<longleftrightarrow> s = p @ r"
  by (induction p s rule: strip_prefix.induct) auto

lemma match_status_step:
  "match_status (c # cs) = match_status cs \<or> (\<exists>ds. match_status (c # cs) = Some ds)"
  by (simp split: option.splits list.splits del: strip_prefix.simps)

text \<open>The search succeeds on every string that holds \<^verbatim>\<open>status/\<close> and then a digit.\<close>

lemma match_status_complete:
  "is_digit d \<Longrightarrow> match_status (pre @ ''status/'' @ d # post) \<noteq> None"
proof (induction pre)
  case Nil
  have "strip_prefix ''status/'' (''status/'' @ d # post) = Some (d # post)"
    by (simp only: strip_prefix_Some)
  with Nil show ?case by simp
next
  case (Cons c pre)
  from Cons.IH[OF Cons.prems] match_status_step[of c "pre @ ''status/'' @ d # post"]
  show ?case by (auto simp only: append_Cons)
qed

text \<open>It succeeds on no other string.\<close>

lemma match_status_sound:
  "match_status s = Some ds \<Longrightarrow> \<exists>pre d post. s = pre @ ''status/'' @ d # post \<and> is_digit d"
proof (induction s)
  case Nil
  then show ?case by simp
next
  case (Cons c cs)
  have later: "\<exists>pre d post. c # cs = pre @ ''status/'' @ d # post \<and> is_digit d"
    if "match_status cs = Some ds"
  proof -
    from Cons.IH[OF that] obtain pre d post
      where "cs = pre @ ''status/'' @ d # post" and "is_digit d" by blast
    then have "c # cs = (c # pre) @ ''status/'' @ d # post \<and> is_digit d" by simp
    then show ?thesis by blast
  qed
  show ?case
  proof (cases "strip_prefix ''status/'' (c # cs)")
    case None
    with Cons.prems have "match_status cs = Some ds" by simp
    then show ?thesis by (rule later)
  next
    case (Some rest)
    then have whole: "c # cs = ''status/'' @ rest" by (simp only: strip_prefix_Some)
    show ?thesis
    proof (cases "takeWhile is_digit rest")
      case Nil
      with Some Cons.prems have "match_status cs = Some ds" by simp
      then show ?thesis by (rule later)
    next
      case (Cons d ds')
      then have "d \<in> set (takeWhile is_digit rest)" by simp
      then have digit: "is_digit d" by (rule set_takeWhileD[THEN conjunct2])
      from Cons obtain post where "rest = d # post"
        by (cases rest) (auto split: if_splits)
      with whole digit have "c # cs = [] @ ''status/'' @ d # post \<and> is_digit d" by simp
      then show ?thesis by blast
    qed
  qed
qed

section \<open>Random draws\<close>

lemma random_pick_in:
  assumes "0 \<le> r" and "r < 1" and "xs \<noteq> []"
  shows "\<exists>x. random_pick xs r = Some x \<and> x \<in> set xs"
proof -
  have "0 \<le> r * real (length xs)" using assms by simp
  then have low: "0 \<le> \<lfloor>r * real (length xs)\<rfloor>" by simp
  have "r * real (length xs) < real (length xs)" using assms by simp
  then have high: "\<lfloor>r * real (length xs)\<rfloor> < int (length xs)" by (simp add: floor_less_iff)
  from low high have "nat \<lfloor>r * real (length xs)\<rfloor> < length xs" by linarith
  with low high show ?thesis by (simp add: random_pick_def Let_def)
qed


text \<open>
  The bounds do not depend on the product being exact.  Let \<open>rnd\<close> give, for the exact
  product, a number at least as near to it as every element of a set \<open>doubles\<close> that holds
  0 and \<open>7000 - 1 / 2 ^ 40\<close>, as rounding to the nearest double does, and let the draw be
  at most \<open>1 - 1 / 2 ^ 53\<close>, the largest double below 1: the pause is in the same range.
\<close>

lemma rounded_product_in_range:
  fixes rnd :: "real \<Rightarrow> real" and doubles :: "real set"
  assumes nearest: "\<And>d. d \<in> doubles \<Longrightarrow> \<bar>rnd (r * 7000) - r * 7000\<bar> \<le> \<bar>d - r * 7000\<bar>"
    and zero: "0 \<in> doubles" and below: "7000 - 1 / 2 ^ 40 \<in> doubles"
    and r: "0 \<le> r" "r \<le> 1 - 1 / 2 ^ 53"
  shows "5000 \<le> \<lfloor>rnd (r * 7000)\<rfloor> + 5000 \<and> \<lfloor>rnd (r * 7000)\<rfloor> + 5000 < 12000"
proof -
  let ?x = "r * 7000"
  have x0: "0 \<le> ?x" using r by simp
  have xmax: "?x \<le> 7000 - 7000 / 2 ^ 53" using r by (simp add: field_simps)
  have low: "0 \<le> rnd ?x"
  proof (rule ccontr)
    assume "\<not> 0 \<le> rnd ?x"
    with x0 have "\<bar>0 - ?x\<bar> < \<bar>rnd ?x - ?x\<bar>" by simp
    with nearest[OF zero] show False by simp
  qed
  have high: "rnd ?x < 7000"
  proof (rule ccontr)
    assume "\<not> rnd ?x < 7000"
    then have far: "7000 - ?x \<le> \<bar>rnd ?x - ?x\<bar>" by simp
    have "\<bar>(7000 - 1 / 2 ^ 40) - ?x\<bar> < 7000 - ?x"
    proof (cases "?x \<le> 7000 - 1 / 2 ^ 40")
      case True
      then show ?thesis by simp
    next
      case False
      then have "\<bar>(7000 - 1 / 2 ^ 40) - ?x\<bar> = ?x - (7000 - 1 / 2 ^ 40)" by simp
      also have "\<dots> \<le> 1 / 2 ^ 40 - 7000 / 2 ^ 53" using xmax by simp
      also have "\<dots> < 7000 / 2 ^ 53" by simp
      also have "\<dots> \<le> 7000 - ?x" using xmax by simp
      finally show ?thesis .
    qed
    with far nearest[OF below] show False by simp
  qed
  from low have "0 \<le> \<lfloor>rnd ?x\<rfloor>" by simp
  moreover from high have "\<lfloor>rnd ?x\<rfloor> < 7000" by (simp add: floor_less_iff)
  ultimately show ?thesis by simp
qed

section \<open>The pause between two items\<close>




text \<open>
  C9.  When the URL holds no \<^verbatim>\<open>status/\<close> that a digit follows, \<^verbatim>\<open>replyToTweet\<close> returns
  \<^verbatim>\<open>false\<close> and the only thing it has done is to log the error: no page was opened and no
  call on the browser was made.
\<close>

theorem replyToTweet_malformed_url:
  assumes "\<not> (\<exists>pre d post. tweetUrl = pre @ ''status/'' @ d # post \<and> is_digit d)"
  shows "replyToTweet e tweetUrl replyText =
           (Returned False, [Log_error (Could_not_extract_tweetId tweetUrl)])"
proof -
  have "match_status tweetUrl = None"
  proof (cases "match_status tweetUrl")
    case (Some ds)
    from match_status_sound[OF this] assms show ?thesis by blast
  qed simp
  then show ?thesis by (simp add: replyToTweet_def)
qed

theorem replyToTweet_malformed_url_witness:
  "\<not> (\<exists>pre d post. ''https://x.com/a/status/'' = pre @ ''status/'' @ d # post \<and> is_digit d) \<and>
   replyToTweet smooth_item ''https://x.com/a/status/'' (Some ''gm'') =
     (Returned False, [Log_error (Could_not_extract_tweetId ''https://x.com/a/status/'')])"
proof -
  have none: "match_status ''https://x.com/a/status/'' = None"
    by simp
  have absent: "\<not> (\<exists>pre d post. ''https://x.com/a/status/'' = pre @ ''status/'' @ d # post \<and> is_digit d)"
  proof
    assume "\<exists>pre d post. ''https://x.com/a/status/'' = pre @ ''status/'' @ d # post \<and> is_digit d"
    then obtain pre d post
      where "''https://x.com/a/status/'' = pre @ ''status/'' @ d # post" and "is_digit d" by blast
    with match_status_complete[of d pre post] none show False by simp
  qed
  from replyToTweet_malformed_url[OF absent, of smooth_item "Some ''gm''"] absent
  show ?thesis by simp
qed

section \<open>Trimming and reading lines\<close>

lemma js_trim_empty_iff: "js_trim s = [] \<longleftrightarrow> list_all is_js_space s"
proof (cases "dropWhile is_js_space s")
  case Nil
  then have "\<forall>x\<in>set s. is_js_space x"
    by (rule dropWhile_eq_Nil_conv[THEN iffD1])
  then have "list_all is_js_space s"
    by (simp add: list_all_iff)
  moreover have "js_trim s = []"
    unfolding js_trim_def Nil by simp
  ultimately show ?thesis by simp
next
  case (Cons x xs)
  then have nx: "\<not> is_js_space x" using hd_dropWhile[of is_js_space s] by simp
  have "x \<in> set (rev (x # xs))" by simp
  with nx have "dropWhile is_js_space (rev (x # xs)) \<noteq> []"
    by (simp only: dropWhile_eq_Nil_conv) blast
  then have "js_trim s \<noteq> []"
    using Cons by (simp add: js_trim_def)
  moreover have "\<not> list_all is_js_space s"
  proof
    assume "list_all is_js_space s"
    then have "\<forall>x\<in>set s. is_js_space x"
      by (simp add: list_all_iff)
    then have "dropWhile is_js_space s = []"
      by (rule dropWhile_eq_Nil_conv[THEN iffD2])
    with Cons show False by simp
  qed
  ultimately show ?thesis by simp
qed

lemma js_trim_decompose:
  "\<exists>pre post. s = pre @ js_trim s @ post \<and> list_all is_js_space pre \<and> list_all is_js_space post"
proof -
  let ?m = "dropWhile is_js_space s"
  have a: "s = takeWhile is_js_space s @ ?m" by simp
  have b: "rev ?m = takeWhile is_js_space (rev ?m) @ dropWhile is_js_space (rev ?m)" by simp
  have "?m = rev (rev ?m)" by simp
  also have "\<dots> = rev (dropWhile is_js_space (rev ?m)) @ rev (takeWhile is_js_space (rev ?m))"
    by (subst b) (simp only: rev_append)
  finally have c: "?m = js_trim s @ rev (takeWhile is_js_space (rev ?m))"
    by (simp add: js_trim_def)
  have "list_all is_js_space (takeWhile is_js_space s)"
    by (auto simp: list_all_iff dest: set_takeWhileD)
  moreover have "list_all is_js_space (rev (takeWhile is_js_space (rev ?m)))"
    by (auto simp: list_all_iff dest: set_takeWhileD)
  moreover have "s = takeWhile is_js_space s @ js_trim s @ rev (takeWhile is_js_space (rev ?m))"
    using a c by metis
  ultimately show ?thesis by blast
qed

lemma js_trim_ends:
  assumes "js_trim s \<noteq> []"
  shows "\<not> is_js_space (hd (js_trim s)) \<and> \<not> is_js_space (last (js_trim s))"
proof -
  let ?m = "dropWhile is_js_space s"
  let ?k = "dropWhile is_js_space (rev ?m)"
  from assms have k: "?k \<noteq> []" by (simp add: js_trim_def)
  have m: "?m \<noteq> []"
  proof
    assume empty: "?m = []"
    have "?k = []" unfolding empty by simp
    with k show False by simp
  qed
  have l: "\<not> is_js_space (hd ?k)" using k by (rule hd_dropWhile)
  have last_eq: "last (js_trim s) = hd ?k" using k by (simp add: js_trim_def last_rev)
  have hm: "\<not> is_js_space (hd ?m)" using m by (rule hd_dropWhile)
  have "last (rev ?m) = hd ?m" using m by (simp add: last_rev)
  obtain ws where ws: "rev ?m = ws @ ?k" by (metis takeWhile_dropWhile_id)
  then have "?m = rev ?k @ rev ws" by (metis rev_append rev_rev_ident)
  then have "hd ?m = hd (rev ?k)" using k by (metis hd_append2 rev_is_Nil_conv)
  then have "hd (js_trim s) = hd ?m" by (simp add: js_trim_def)
  with hm l last_eq show ?thesis by simp
qed

lemma read_lines_alt:
  "read_lines text = map js_trim (filter (\<lambda>line. \<not> list_all is_js_space line) (js_split text))"
  by (simp add: read_lines_def filter_map comp_def js_trim_empty_iff)

lemma call_all: "P ev \<Longrightarrow> list_all P (snd k) \<Longrightarrow> list_all P (snd (call ok ev k))"
  by (simp add: call_def)

lemma emit_all: "P ev \<Longrightarrow> list_all P (snd k) \<Longrightarrow> list_all P (snd (emit ev k))"
  by (simp add: emit_def)

lemma try_catch_all: "list_all P (snd b) \<Longrightarrow> list_all P (snd h) \<Longrightarrow> list_all P (snd (try_catch b h))"
  by (simp add: try_catch_def split: outcome.splits)

lemma submit_quiet: "list_all (\<lambda>e. \<not> announces e) (snd (submit_reply e tweetId replyUrl))"
  unfolding submit_reply_def
  by (auto split: option.splits intro!: call_all emit_all)

lemma try_block_quiet: "list_all (\<lambda>e. \<not> announces e) (snd (try_block e tweetId replyUrl replyText))"
  unfolding try_block_def
  by (auto intro!: call_all emit_all submit_quiet)

lemma replyToTweet_quiet: "list_all (\<lambda>e. \<not> announces e) (snd (replyToTweet e tweetUrl replyText))"
  unfolding replyToTweet_def catch_block_def
  by (auto split: option.splits intro!: call_all emit_all try_catch_all try_block_quiet)

lemma reply_all_announces:
  "Log_info (Preparing_to_reply u t) \<in> set (snd (reply_all its pool i urls)) \<Longrightarrow>
   u \<in> set urls \<and> (\<exists>j. t = getCannedReply pool (reply_draw (its j)))"
proof (induction urls arbitrary: i)
  case Nil
  then show ?case by simp
next
  case (Cons url rest)
  let ?text = "getCannedReply pool (reply_draw (its i))"
  let ?ev = "Log_info (Preparing_to_reply u t)"
  have quiet: "?ev \<notin> set (snd (replyToTweet (its i) url ?text))"
    using replyToTweet_quiet[of "its i" url ?text] by (auto simp: list_all_iff)
  from Cons.prems quiet
  have "(u = url \<and> t = ?text) \<or> ?ev \<in> set (snd (reply_all its pool (i + 1) rest))"
    by (auto simp: Let_def split: outcome.splits prod.splits if_splits)
  then show ?case using Cons.IH[of "i + 1"] by auto
qed

section \<open>Finding the submit control\<close>

lemma of_char_lower_char:
  "of_char (lower_char c) =
     (if (65 \<le> (of_char c :: nat) \<and> (of_char c :: nat) \<le> 90) \<or>
         (192 \<le> (of_char c :: nat) \<and> (of_char c :: nat) \<le> 222 \<and> (of_char c :: nat) \<noteq> 215)
      then (of_char c :: nat) + 32 else of_char c)"
  by (auto simp: lower_char_def Let_def)

lemma lower_char_eq_iff:
  assumes "97 \<le> (of_char x :: nat)" "(of_char x :: nat) \<le> 122"
  shows "lower_char c = x \<longleftrightarrow> c = x \<or> (of_char c :: nat) + 32 = of_char x"
proof -
  have "lower_char c = x \<longleftrightarrow> (of_char (lower_char c) :: nat) = of_char x"
    by simp
  also have "\<dots> \<longleftrightarrow> (of_char c :: nat) = of_char x \<or> (of_char c :: nat) + 32 = of_char x"
    using assms unfolding of_char_lower_char by auto
  finally show ?thesis by simp
qed

text \<open>Equality with \<^verbatim>\<open>reply\<close> after \<^verbatim>\<open>toLowerCase\<close> is equality up to the case of each letter.\<close>

lemma lower_char_letter:
  assumes "97 \<le> (of_char x :: nat)" and "(of_char x :: nat) \<le> 122"
  shows "lower_char c = x \<longleftrightarrow> c = x \<or> c = char_of ((of_char x :: nat) - 32)"
proof -
  have "(of_char c :: nat) + 32 = of_char x \<longleftrightarrow> c = char_of ((of_char x :: nat) - 32)"
  proof
    assume "(of_char c :: nat) + 32 = of_char x"
    then have "(of_char x :: nat) - 32 = of_char c" by simp
    then show "c = char_of ((of_char x :: nat) - 32)" by simp
  next
    assume "c = char_of ((of_char x :: nat) - 32)"
    then have "(of_char c :: nat) = ((of_char x :: nat) - 32) mod 256" by simp
    also have "\<dots> = (of_char x :: nat) - 32" using assms by simp
    finally show "(of_char c :: nat) + 32 = of_char x" using assms by simp
  qed
  with lower_char_eq_iff[OF assms, of c] show ?thesis by simp
qed

lemma map_eq_five:
  "map f s = [v, w, x, y, z] \<longleftrightarrow>
     (\<exists>a b c d e. s = [a, b, c, d, e] \<and> f a = v \<and> f b = w \<and> f c = x \<and> f d = y \<and> f e = z)"
  by (auto simp: map_eq_Cons_conv)

lemma toLowerCase_reply_iff:
  "toLowerCase s = ''reply'' \<longleftrightarrow>
     (\<exists>a b c d e. s = [a, b, c, d, e] \<and>
        (a = CHR ''r'' \<or> a = CHR ''R'') \<and> (b = CHR ''e'' \<or> b = CHR ''E'') \<and>
        (c = CHR ''p'' \<or> c = CHR ''P'') \<and> (d = CHR ''l'' \<or> d = CHR ''L'') \<and>
        (e = CHR ''y'' \<or> e = CHR ''Y''))"
proof -
  have r: "lower_char a = CHR ''r'' \<longleftrightarrow> a = CHR ''r'' \<or> a = CHR ''R''" for a
  proof -
    have "char_of ((of_char (CHR ''r'') :: nat) - 32) = CHR ''R''" by code_simp
    with lower_char_letter[of "CHR ''r''" a] show ?thesis by simp
  qed
  have e: "lower_char a = CHR ''e'' \<longleftrightarrow> a = CHR ''e'' \<or> a = CHR ''E''" for a
  proof -
    have "char_of ((of_char (CHR ''e'') :: nat) - 32) = CHR ''E''" by code_simp
    with lower_char_letter[of "CHR ''e''" a] show ?thesis by simp
  qed
  have p: "lower_char a = CHR ''p'' \<longleftrightarrow> a = CHR ''p'' \<or> a = CHR ''P''" for a
  proof -
    have "char_of ((of_char (CHR ''p'') :: nat) - 32) = CHR ''P''" by code_simp
    with lower_char_letter[of "CHR ''p''" a] show ?thesis by simp
  qed
  have l: "lower_char a = CHR ''l'' \<longleftrightarrow> a = CHR ''l'' \<or> a = CHR ''L''" for a
  proof -
    have "char_of ((of_char (CHR ''l'') :: nat) - 32) = CHR ''L''" by code_simp
    with lower_char_letter[of "CHR ''l''" a] show ?thesis by simp
  qed
  have y: "lower_char a = CHR ''y'' \<longleftrightarrow> a = CHR ''y'' \<or> a = CHR ''Y''" for a
  proof -
    have "char_of ((of_char (CHR ''y'') :: nat) - 32) = CHR ''Y''" by code_simp
    with lower_char_letter[of "CHR ''y''" a] show ?thesis by simp
  qed
  have "''reply'' = [CHR ''r'', CHR ''e'', CHR ''p'', CHR ''l'', CHR ''y'']" by simp
  then show ?thesis
    unfolding toLowerCase_def by (simp only: map_eq_five r e p l y)
qed

lemma step_hit:
  "((text_of b = ''reply'' \<or> label_of b = ''reply'') \<and> isVisibleAndEnabled b) = spec_submit_control b"
  by (auto simp: spec_submit_control_def text_of_def label_of_def isVisibleAndEnabled_def toLowerCase_def js_trim_def
      split: option.splits)

lemma click_from_Cons:
  "click_from i (b # rest) = (if spec_submit_control b then Some i else click_from (i + 1) rest)"
  by (simp only: click_from.simps step_hit)

lemma click_from_Some:
  "click_from i cs = Some k \<longleftrightarrow>
     i \<le> k \<and> k - i < length cs \<and> spec_submit_control (cs ! (k - i)) \<and>
     (\<forall>j<k - i. \<not> spec_submit_control (cs ! j))"
proof (induction cs arbitrary: i)
  case Nil
  then show ?case by simp
next
  case (Cons b rest)
  show ?case
  proof (cases "spec_submit_control b")
    case True
    then have "click_from i (b # rest) = Some i"
      by (simp only: click_from_Cons if_True)
    moreover have "(i \<le> k \<and> k - i < length (b # rest) \<and> spec_submit_control ((b # rest) ! (k - i)) \<and>
        (\<forall>j<k - i. \<not> spec_submit_control ((b # rest) ! j))) \<longleftrightarrow> k = i"
    proof
      assume h: "i \<le> k \<and> k - i < length (b # rest) \<and> spec_submit_control ((b # rest) ! (k - i)) \<and>
        (\<forall>j<k - i. \<not> spec_submit_control ((b # rest) ! j))"
      show "k = i"
      proof (rule ccontr)
        assume "k \<noteq> i"
        with h have "0 < k - i" by simp
        with h have "\<not> spec_submit_control ((b # rest) ! 0)" by blast
        with True show False by simp
      qed
    next
      assume "k = i"
      with True show "i \<le> k \<and> k - i < length (b # rest) \<and> spec_submit_control ((b # rest) ! (k - i)) \<and>
        (\<forall>j<k - i. \<not> spec_submit_control ((b # rest) ! j))" by simp
    qed
    ultimately show ?thesis by auto
  next
    case False
    then have step: "click_from i (b # rest) = click_from (i + 1) rest"
      by (simp only: click_from_Cons if_False)
    have "(i + 1 \<le> k \<and> k - (i + 1) < length rest \<and> spec_submit_control (rest ! (k - (i + 1))) \<and>
        (\<forall>j<k - (i + 1). \<not> spec_submit_control (rest ! j))) \<longleftrightarrow>
      (i \<le> k \<and> k - i < length (b # rest) \<and> spec_submit_control ((b # rest) ! (k - i)) \<and>
        (\<forall>j<k - i. \<not> spec_submit_control ((b # rest) ! j)))" (is "?L \<longleftrightarrow> ?R")
    proof
      assume l: ?L
      then have "i + 1 \<le> k" by (rule conjunct1)
      then have e: "k - i = Suc (k - (i + 1))" by arith
      have "\<And>j. j < k - i \<Longrightarrow> \<not> spec_submit_control ((b # rest) ! j)"
      proof -
        fix j assume "j < k - i"
        then show "\<not> spec_submit_control ((b # rest) ! j)"
          using l False by (cases j) auto
      qed
      with l e show ?R by simp
    next
      assume r: ?R
      have "k \<noteq> i"
      proof
        assume "k = i"
        with r have "spec_submit_control ((b # rest) ! 0)" by simp
        with False show False by simp
      qed
      moreover from r have "i \<le> k" by (rule conjunct1)
      ultimately have e: "k - i = Suc (k - (i + 1))" "i + 1 \<le> k" by arith+
      have "\<And>j. j < k - (i + 1) \<Longrightarrow> \<not> spec_submit_control (rest ! j)"
      proof -
        fix j assume "j < k - (i + 1)"
        then have "Suc j < k - i" using e by simp
        with r have "\<not> spec_submit_control ((b # rest) ! Suc j)" by blast
        then show "\<not> spec_submit_control (rest ! j)" by simp
      qed
      with r e show ?L by simp
    qed
    with step Cons.IH[of "i + 1"] show ?thesis by simp
  qed
qed

lemma click_Some_iff:
  "clickReplyButtonByLabel cs = Some k \<longleftrightarrow>
     k < length cs \<and> spec_submit_control (cs ! k) \<and> (\<forall>j<k. \<not> spec_submit_control (cs ! j))"
  unfolding clickReplyButtonByLabel_def click_from_Some by simp

lemma click_from_None:
  "click_from i cs = None \<longleftrightarrow> (\<forall>b\<in>set cs. \<not> spec_submit_control b)"
  by (induction cs arbitrary: i) (simp_all only: click_from.simps(1) click_from_Cons, auto)

section \<open>What the dispatcher attempts\<close>

lemma script_announces:
  assumes "tweets_file files = Some tweets" and "comments_file files = Some comments"
    and "Log_info (Preparing_to_reply u t) \<in> set (events (dispatcher_script parse files w))"
  shows "Log_info (Preparing_to_reply u t)
           \<in> set (snd (reply_all (items w) (read_lines comments) 0 (read_lines tweets)))"
  using assms
  by (auto simp: dispatcher_script_def dispatcher_main_def
      split: option.splits auth_check.splits prod.splits outcome.splits if_splits)

lemma read_lines_member:
  "u \<in> set (read_lines text) \<longleftrightarrow>
     (\<exists>line\<in>set (js_split text). \<not> list_all is_js_space line \<and> u = js_trim line)"
  unfolding read_lines_alt by auto

lemma read_lines_trimmed:
  assumes "u \<in> set (read_lines text)"
  shows "u \<noteq> [] \<and> \<not> is_js_space (hd u) \<and> \<not> is_js_space (last u)"
proof -
  from assms obtain line where "u = js_trim line" and "js_trim line \<noteq> []"
    by (auto simp: read_lines_def)
  then show ?thesis using js_trim_ends[of line] by simp
qed

text \<open>
  C10.  Both list files are read line by line, each line without its surrounding white
  space, and the lines that hold white space only are left out.  So every reply attempt
  that \<^verbatim>\<open>main\<close> announces is for the trimmed text of a line of the input list that is not
  blank, and, when every draw lies in \<open>[0, 1)\<close> and the pool has a line that is not blank,
  the reply text is the trimmed text of such a line of the pool, never the empty string.
\<close>

theorem blank_lines_never_attempted:
  assumes "tweets_file files = Some tweets" and "comments_file files = Some comments"
    and "Log_info (Preparing_to_reply tweetUrl replyText) \<in> set (events (dispatcher_script parse files w))"
  shows "read_lines tweets = map js_trim (filter (\<lambda>line. \<not> list_all is_js_space line) (js_split tweets)) \<and>
         read_lines comments = map js_trim (filter (\<lambda>line. \<not> list_all is_js_space line) (js_split comments)) \<and>
         (\<exists>line\<in>set (js_split tweets). \<not> list_all is_js_space line \<and> tweetUrl = js_trim line) \<and>
         tweetUrl \<noteq> [] \<and> \<not> is_js_space (hd tweetUrl) \<and> \<not> is_js_space (last tweetUrl) \<and>
         ((\<forall>i. 0 \<le> reply_draw (items w i) \<and> reply_draw (items w i) < 1) \<and>
          (\<exists>line\<in>set (js_split comments). \<not> list_all is_js_space line) \<longrightarrow>
          (\<exists>line\<in>set (js_split comments). \<not> list_all is_js_space line \<and> replyText = Some (js_trim line)) \<and>
          replyText \<noteq> Some [])"
proof -
  from script_announces[OF assms]
  have "tweetUrl \<in> set (read_lines tweets) \<and>
        (\<exists>j. replyText = getCannedReply (read_lines comments) (reply_draw (items w j)))"
    by (rule reply_all_announces)
  then obtain j where url: "tweetUrl \<in> set (read_lines tweets)"
    and chosen: "replyText = getCannedReply (read_lines comments) (reply_draw (items w j))"
    by blast
  have reply: "(\<exists>line\<in>set (js_split comments). \<not> list_all is_js_space line \<and> replyText = Some (js_trim line)) \<and>
          replyText \<noteq> Some []"
    if draws: "\<forall>i. 0 \<le> reply_draw (items w i) \<and> reply_draw (items w i) < 1"
      and pool: "\<exists>line\<in>set (js_split comments). \<not> list_all is_js_space line"
  proof -
    from pool have "read_lines comments \<noteq> []"
      using read_lines_member[of _ comments] by fastforce
    with draws random_pick_in[of "reply_draw (items w j)" "read_lines comments"]
    obtain x where x: "replyText = Some x" "x \<in> set (read_lines comments)"
      unfolding chosen getCannedReply_def by blast
    from x(2) have "x \<noteq> []" using read_lines_trimmed by blast
    with x show ?thesis using read_lines_member[of x comments] by simp
  qed
  from url have "\<exists>line\<in>set (js_split tweets). \<not> list_all is_js_space line \<and> tweetUrl = js_trim line"
    by (simp only: read_lines_member)
  with read_lines_trimmed[OF url] reply read_lines_alt[of tweets] read_lines_alt[of comments]
  show ?thesis by blast
qed

lemma sample_run:
  "events (dispatcher_script sample_parse sample_files sample_world) =
     [Launch,
      Log_info (Preparing_to_reply ''https://x.com/home'' (Some ''gm'')),
      Log_error (Could_not_extract_tweetId ''https://x.com/home''),
      Log_error (Failed_to_reply ''https://x.com/home''),
      Log_info (Waiting 8500), Sleep 8500,
      Close_browser, Log_info Exited_gracefully]"
  by (simp add: dispatcher_script_def sample_files_def sample_parse_def sample_world_def check_auth_def
      dispatcher_main_def read_lines_def newline_def js_trim_def is_js_space_def smooth_item_def
      getCannedReply_def random_pick_def replyToTweet_def replyDelay_def)

section \<open>The item without a submit control\<close>

lemma fst_call: "fst (call ok ev k) = (if ok then fst k else Thrown)"
  by (simp add: call_def)

lemma fst_emit: "fst (emit ev k) = fst k"
  by (simp add: emit_def)

lemma snd_call: "snd (call ok ev k) = (if ok then ev # snd k else [ev])"
  by (simp add: call_def)

lemma snd_emit: "snd (emit ev k) = ev # snd k"
  by (simp add: emit_def)

lemma submit_no_match:
  assumes "dialog e = Some cs" and "\<forall>b\<in>set cs. \<not> spec_submit_control b"
  shows "submit_reply e tweetId replyUrl =
           emit (Click_by_label None)
           (emit (Log_error (Reply_button_not_found tweetId))
           (call (error_shot_ok e) (Screenshot (''reply_error_'' @ tweetId @ ''.png''))
           (call (error_close_ok e) Close_page
           (Returned False, []))))"
proof -
  from assms(2) have "clickReplyButtonByLabel cs = None"
    by (simp only: clickReplyButtonByLabel_def click_from_None)
  with assms(1) show ?thesis by (simp add: submit_reply_def)
qed

lemma try_block_never_true:
  assumes "fst (submit_reply e tweetId replyUrl) \<noteq> Returned True"
  shows "fst (try_block e tweetId replyUrl replyText) \<noteq> Returned True"
  using assms by (simp add: try_block_def fst_call fst_emit)

lemma catch_block_never_true: "fst (catch_block e tweetUrl tweetId) \<noteq> Returned True"
  by (simp add: catch_block_def fst_call fst_emit)

lemma try_catch_never_true:
  "fst body \<noteq> Returned True \<Longrightarrow> fst handler \<noteq> Returned True \<Longrightarrow>
   fst (try_catch body handler) \<noteq> Returned True"
  by (cases "fst body") (auto simp: try_catch_def)

lemma no_match_never_true:
  assumes "dialog e = Some cs" and "\<forall>b\<in>set cs. \<not> spec_submit_control b"
  shows "fst (replyToTweet e tweetUrl replyText) \<noteq> Returned True"
proof (cases "match_status tweetUrl")
  case None
  then show ?thesis by (simp add: replyToTweet_def)
next
  case (Some tweetId)
  let ?url = "''https://x.com/i/web/status/'' @ tweetId"
  have "fst (submit_reply e tweetId ?url) \<noteq> Returned True"
    unfolding submit_no_match[OF assms] by (simp add: fst_call fst_emit)
  then have "fst (try_block e tweetId ?url replyText) \<noteq> Returned True"
    by (rule try_block_never_true)
  then have "fst (try_catch (try_block e tweetId ?url replyText) (catch_block e tweetUrl tweetId))
               \<noteq> Returned True"
    using catch_block_never_true by (rule try_catch_never_true)
  then show ?thesis
    using Some by (simp add: replyToTweet_def fst_call fst_emit)
qed

lemma no_match_recorded:
  assumes "dialog e = Some cs" and "\<forall>b\<in>set cs. \<not> spec_submit_control b"
    and "match_status tweetUrl = Some tweetId" and "reaches_submit e"
  shows "Log_error (Reply_button_not_found tweetId) \<in> set (snd (replyToTweet e tweetUrl replyText))"
    and "(error_shot_ok e \<and> error_close_ok e) \<or> (catch_shot_ok e \<and> catch_close_ok e) \<Longrightarrow>
         fst (replyToTweet e tweetUrl replyText) = Returned False"
proof -
  let ?url = "''https://x.com/i/web/status/'' @ tweetId"
  have body: "try_block e tweetId ?url replyText =
      (fst (submit_reply e tweetId ?url),
       [Goto ?url, Wait_for Article, Sleep 1000, Scroll_into_view, Sleep 800,
        Wait_for Reply_control, Click Reply_control, Sleep 1000, Wait_for Tweet_textarea,
        Type_text Tweet_textarea replyText] @ snd (submit_reply e tweetId ?url))"
    using assms(4) by (simp add: reaches_submit_def try_block_def call_def emit_def)
  have mem: "Log_error (Reply_button_not_found tweetId) \<in> set (snd (submit_reply e tweetId ?url))"
    unfolding submit_no_match[OF assms(1,2)] by (simp add: snd_call snd_emit)
  then have "Log_error (Reply_button_not_found tweetId)
      \<in> set (snd (try_catch (try_block e tweetId ?url replyText) (catch_block e tweetUrl tweetId)))"
    unfolding body by (simp add: try_catch_def split: outcome.splits)
  then show "Log_error (Reply_button_not_found tweetId) \<in> set (snd (replyToTweet e tweetUrl replyText))"
    using assms(3,4) by (simp add: replyToTweet_def reaches_submit_def call_def emit_def)
  assume "(error_shot_ok e \<and> error_close_ok e) \<or> (catch_shot_ok e \<and> catch_close_ok e)"
  then have "fst (try_catch (try_block e tweetId ?url replyText) (catch_block e tweetUrl tweetId))
      = Returned False"
    unfolding body submit_no_match[OF assms(1,2)]
    by (auto simp: try_catch_def catch_block_def fst_call fst_emit split: outcome.splits)
  then show "fst (replyToTweet e tweetUrl replyText) = Returned False"
    using assms(3,4) by (simp add: replyToTweet_def reaches_submit_def call_def emit_def)
qed

lemma click_exists_iff:
  "clickReplyButtonByLabel cs \<noteq> None \<longleftrightarrow> (\<exists>b\<in>set cs. spec_submit_control b)"
  by (simp only: clickReplyButtonByLabel_def click_from_None) blast

text \<open>
  C6.  \<^verbatim>\<open>clickReplyButtonByLabel\<close> clicks and returns \<^verbatim>\<open>true\<close> exactly when some candidate
  of the dialog is a submit control in the sense of \<open>spec_submit_control\<close>, and the one
  clicked is the first such candidate in document order.  When no candidate is one, it
  returns \<^verbatim>\<open>false\<close> and \<^verbatim>\<open>replyToTweet\<close> never reports success; for an item that got as
  far as the search, the failure is logged, and \<^verbatim>\<open>false\<close> is returned when the
  screenshot and the close of either the failure branch or the \<^verbatim>\<open>catch\<close> block resolve.
\<close>

theorem reply_button_found_by_label:
  "(clickReplyButtonByLabel cs \<noteq> None \<longleftrightarrow> (\<exists>b\<in>set cs. spec_submit_control b)) \<and>
   (clickReplyButtonByLabel cs = Some k \<longleftrightarrow>
      k < length cs \<and> spec_submit_control (cs ! k) \<and> (\<forall>j<k. \<not> spec_submit_control (cs ! j))) \<and>
   (dialog e = Some cs \<and> (\<forall>b\<in>set cs. \<not> spec_submit_control b) \<longrightarrow>
      clickReplyButtonByLabel cs = None \<and>
      fst (replyToTweet e tweetUrl replyText) \<noteq> Returned True \<and>
      (match_status tweetUrl = Some tweetId \<and> reaches_submit e \<longrightarrow>
         Log_error (Reply_button_not_found tweetId) \<in> set (snd (replyToTweet e tweetUrl replyText)) \<and>
         ((error_shot_ok e \<and> error_close_ok e) \<or> (catch_shot_ok e \<and> catch_close_ok e) \<longrightarrow>
            fst (replyToTweet e tweetUrl replyText) = Returned False)))"
  using click_exists_iff[of cs] click_Some_iff[of cs k]
    no_match_never_true[of e cs tweetUrl replyText]
    no_match_recorded[of e cs tweetUrl tweetId replyText]
  by blast

section \<open>Instances\<close>

lemma lower_Reply: "toLowerCase ''Reply'' = ''reply''"
  by code_simp

lemma reply_button_control: "spec_submit_control reply_button"
  by (simp add: spec_submit_control_def reply_button_def lower_Reply js_trim_def is_js_space_def)

lemma hidden_button_no_control: "\<not> spec_submit_control hidden_button"
  by (simp add: spec_submit_control_def hidden_button_def reply_button_def)

lemma status_id_of_sample: "match_status ''https://x.com/a/status/1'' = Some ''1''"
  by (simp add: is_digit_def)

lemma stuck_item_reaches: "reaches_submit stuck_item"
  by (simp add: reaches_submit_def stuck_item_def smooth_item_def)

theorem reply_button_found_by_label_witness:
  "spec_submit_control reply_button \<and> \<not> spec_submit_control hidden_button \<and>
   clickReplyButtonByLabel [hidden_button, reply_button] = Some 1 \<and>
   clickReplyButtonByLabel [hidden_button] = None \<and>
   fst (replyToTweet stuck_item ''https://x.com/a/status/1'' (Some ''gm'')) = Returned False \<and>
   Log_error (Reply_button_not_found ''1'')
     \<in> set (snd (replyToTweet stuck_item ''https://x.com/a/status/1'' (Some ''gm'')))"
proof -
  have first: "(1::nat) < length [hidden_button, reply_button] \<and>
      spec_submit_control ([hidden_button, reply_button] ! 1) \<and>
      (\<forall>j<1. \<not> spec_submit_control ([hidden_button, reply_button] ! j))"
    using reply_button_control hidden_button_no_control by simp
  have none: "dialog stuck_item = Some [hidden_button] \<and>
      (\<forall>b\<in>set [hidden_button]. \<not> spec_submit_control b)"
    using hidden_button_no_control by (simp add: stuck_item_def)
  have ok: "error_shot_ok stuck_item \<and> error_close_ok stuck_item"
    by (simp add: stuck_item_def smooth_item_def)
  from reply_button_found_by_label[of "[hidden_button, reply_button]" 1 stuck_item
      "''https://x.com/a/status/1''" "Some ''gm''" "''1''"] first
  have a: "clickReplyButtonByLabel [hidden_button, reply_button] = Some 1" by blast
  from reply_button_found_by_label[of "[hidden_button]" 0 stuck_item
      "''https://x.com/a/status/1''" "Some ''gm''" "''1''"] none status_id_of_sample stuck_item_reaches ok
  have b: "clickReplyButtonByLabel [hidden_button] = None \<and>
      fst (replyToTweet stuck_item ''https://x.com/a/status/1'' (Some ''gm'')) = Returned False \<and>
      Log_error (Reply_button_not_found ''1'')
        \<in> set (snd (replyToTweet stuck_item ''https://x.com/a/status/1'' (Some ''gm'')))"
    by blast
  from a b reply_button_control hidden_button_no_control show ?thesis by blast
qed

theorem blank_lines_never_attempted_witness:
  "tweets_file sample_files = Some (''https://x.com/home'' @ [newline] @ ''  '' @ [newline]) \<and>
   comments_file sample_files = Some ('' gm '' @ [newline] @ [newline]) \<and>
   Log_info (Preparing_to_reply ''https://x.com/home'' (Some ''gm''))
     \<in> set (events (dispatcher_script sample_parse sample_files sample_world)) \<and>
   (\<forall>i. 0 \<le> reply_draw (items sample_world i) \<and> reply_draw (items sample_world i) < 1) \<and>
   (\<exists>line\<in>set (js_split ('' gm '' @ [newline] @ [newline])). \<not> list_all is_js_space line) \<and>
   (\<exists>line\<in>set (js_split (''https://x.com/home'' @ [newline] @ ''  '' @ [newline])).
      \<not> list_all is_js_space line \<and> ''https://x.com/home'' = js_trim line) \<and>
   (\<exists>line\<in>set (js_split ('' gm '' @ [newline] @ [newline])).
      \<not> list_all is_js_space line \<and> Some ''gm'' = Some (js_trim line))"
proof -
  have t: "tweets_file sample_files = Some (''https://x.com/home'' @ [newline] @ ''  '' @ [newline])"
    by (simp add: sample_files_def)
  have c: "comments_file sample_files = Some ('' gm '' @ [newline] @ [newline])"
    by (simp add: sample_files_def)
  have ev: "Log_info (Preparing_to_reply ''https://x.com/home'' (Some ''gm''))
     \<in> set (events (dispatcher_script sample_parse sample_files sample_world))"
    by (simp add: sample_run)
  have draws: "\<forall>i. 0 \<le> reply_draw (items sample_world i) \<and> reply_draw (items sample_world i) < 1"
    by (simp add: sample_world_def smooth_item_def)
  have pool: "\<exists>line\<in>set (js_split ('' gm '' @ [newline] @ [newline])). \<not> list_all is_js_space line"
    by (simp add: newline_def is_js_space_def)
  from blank_lines_never_attempted[OF t c ev] draws pool t c ev
  show ?thesis by blast
qed

section \<open>Start-up and the output file\<close>

lemma lacks_auth_field_exit:
  "lacks_auth_field parse text \<Longrightarrow> check_auth parse text = Auth_exit"
  by (auto simp: lacks_auth_field_def check_auth_def split: option.splits json.splits)

text \<open>
  C5.  When a required file is missing, or \<^verbatim>\<open>auth.json\<close> lacks \<^verbatim>\<open>auth_token\<close> or \<^verbatim>\<open>ct0\<close>,
  either script ends with exit code 1, has asked for no browser and has written nothing:
  the scraper leaves no output file, and all that the dispatcher has done is to log.  The
  exit code is 0 exactly when the configuration was accepted, the browser came up,
  \<^verbatim>\<open>main\<close> went through its loop and the browser closed.
\<close>

theorem fatal_configuration_exits_1:
  "(auth = None \<or> (\<exists>text. auth = Some text \<and> lacks_auth_field parse text) \<longrightarrow>
      scraper_script parse auth w =
        Some \<lparr>launched = False, output_file = None, ending = Exit 1\<rparr>) \<and>
   (tweets_file files = None \<or> comments_file files = None \<or> auth_json files = None \<or>
    (\<exists>text. auth_json files = Some text \<and> lacks_auth_field parse text) \<longrightarrow>
      finish (dispatcher_script parse files dw) = Exit 1 \<and>
      list_all is_log (events (dispatcher_script parse files dw))) \<and>
   (scraper_script parse auth w = Some r \<longrightarrow>
      (ending r = Exit 0 \<longleftrightarrow>
         (\<exists>text urls. auth = Some text \<and> check_auth parse text = Auth_ok \<and> init_ok w \<and>
            scrape_all (pages w) (keywords_of targetKeywords) [] = Some (Returned urls) \<and>
            close_ok w))) \<and>
   (finish (dispatcher_script parse files dw) = Exit 0 \<longleftrightarrow>
      (\<exists>tweets comments text bs. tweets_file files = Some tweets \<and>
         comments_file files = Some comments \<and> auth_json files = Some text \<and>
         check_auth parse text = Auth_ok \<and> browser_ok dw \<and>
         fst (reply_all (items dw) (read_lines comments) 0 (read_lines tweets)) = Returned bs \<and>
         browser_close_ok dw))"
proof (intro conjI impI)
  assume "auth = None \<or> (\<exists>text. auth = Some text \<and> lacks_auth_field parse text)"
  then show "scraper_script parse auth w =
        Some \<lparr>launched = False, output_file = None, ending = Exit 1\<rparr>"
    by (auto simp: scraper_script_def dest: lacks_auth_field_exit)
next
  assume a: "tweets_file files = None \<or> comments_file files = None \<or> auth_json files = None \<or>
    (\<exists>text. auth_json files = Some text \<and> lacks_auth_field parse text)"
  then show "finish (dispatcher_script parse files dw) = Exit 1"
    by (auto simp: dispatcher_script_def dest: lacks_auth_field_exit split: option.splits)
  from a show "list_all is_log (events (dispatcher_script parse files dw))"
    by (auto simp: dispatcher_script_def dest: lacks_auth_field_exit split: option.splits)
next
  assume "scraper_script parse auth w = Some r"
  then show "ending r = Exit 0 \<longleftrightarrow>
         (\<exists>text urls. auth = Some text \<and> check_auth parse text = Auth_ok \<and> init_ok w \<and>
            scrape_all (pages w) (keywords_of targetKeywords) [] = Some (Returned urls) \<and>
            close_ok w)"
    by (auto simp: scraper_script_def scraper_main_def
        split: option.splits auth_check.splits outcome.splits if_splits)
next
  show "finish (dispatcher_script parse files dw) = Exit 0 \<longleftrightarrow>
      (\<exists>tweets comments text bs. tweets_file files = Some tweets \<and>
         comments_file files = Some comments \<and> auth_json files = Some text \<and>
         check_auth parse text = Auth_ok \<and> browser_ok dw \<and>
         fst (reply_all (items dw) (read_lines comments) 0 (read_lines tweets)) = Returned bs \<and>
         browser_close_ok dw)"
    by (auto simp: dispatcher_script_def dispatcher_main_def
        split: option.splits auth_check.splits outcome.splits prod.splits if_splits)
qed

text \<open>
  C7.  The scraper writes its output file only when the accumulated set of URLs is not
  empty, and then it writes the URLs joined by newlines.  With an empty keyword table
  \<^verbatim>\<open>main\<close> returns and nothing is written; nothing is written either when the set is
  empty after all keywords.
\<close>

theorem no_output_without_urls:
  "(\<exists>r. scraper_main [] w = Some r \<and> output_file r = None) \<and>
   (scraper_main kws w = Some r \<longrightarrow>
      (output_file r = None \<longleftrightarrow>
         \<not> init_ok w \<or>
         scrape_all (pages w) (keywords_of kws) [] = Some Thrown \<or>
         scrape_all (pages w) (keywords_of kws) [] = Some (Returned []))) \<and>
   (scraper_main kws w = Some r \<and> output_file r = Some written \<longrightarrow>
      (\<exists>urls. urls \<noteq> [] \<and> scrape_all (pages w) (keywords_of kws) [] = Some (Returned urls) \<and>
         written = js_join urls))"
proof (intro conjI impI)
  show "\<exists>r. scraper_main [] w = Some r \<and> output_file r = None"
    by (simp add: scraper_main_def keywords_of_def new_Set_def add_all_def)
next
  assume "scraper_main kws w = Some r"
  then show "output_file r = None \<longleftrightarrow>
         \<not> init_ok w \<or>
         scrape_all (pages w) (keywords_of kws) [] = Some Thrown \<or>
         scrape_all (pages w) (keywords_of kws) [] = Some (Returned [])"
    by (auto simp: scraper_main_def split: option.splits outcome.splits if_splits)
next
  assume "scraper_main kws w = Some r \<and> output_file r = Some written"
  then show "\<exists>urls. urls \<noteq> [] \<and> scrape_all (pages w) (keywords_of kws) [] = Some (Returned urls) \<and>
         written = js_join urls"
    by (auto simp: scraper_main_def split: option.splits outcome.splits if_splits)
qed

lemma keywords_sample: "keywords_of targetKeywords = [''giverep'']"
  by code_simp

lemma still_scrape: "scrapeUrlsForKeyword still_page = Some (Returned [''https://x.com/a/status/1'', ''https://x.com/b/status/22''])"
  by code_simp

lemma offline_scrape: "scrapeUrlsForKeyword offline_page = Some (Returned [])"
  by (simp add: scrapeUrlsForKeyword_def offline_page_def)

lemma still_main: "scraper_main targetKeywords still_world =
  Some \<lparr>launched = True, output_file = Some (''https://x.com/a/status/1'' @ newline # ''https://x.com/b/status/22''), ending = Exit 0\<rparr>"
  by (simp add: scraper_main_def keywords_sample still_world_def still_scrape add_all_def set_add_def)

lemma offline_main: "scraper_main targetKeywords offline_world =
  Some \<lparr>launched = True, output_file = None, ending = Exit 0\<rparr>"
  by (simp add: scraper_main_def keywords_sample offline_world_def offline_scrape add_all_def set_add_def)


lemma sample_auth: "check_auth sample_parse ''{auth}'' = Auth_ok"
  by (simp add: check_auth_def sample_parse_def)

lemma sample_lacks: "lacks_auth_field sample_parse ''{}''"
  by (simp add: lacks_auth_field_def sample_parse_def)

lemma offline_all: "scrape_all (pages offline_world) (keywords_of targetKeywords) [] = Some (Returned [])"
  by (simp add: keywords_sample offline_world_def offline_scrape add_all_def)

lemma still_all:
  "scrape_all (pages still_world) (keywords_of targetKeywords) [] =
     Some (Returned [''https://x.com/a/status/1'', ''https://x.com/b/status/22''])"
  by (simp add: keywords_sample still_world_def still_scrape add_all_def set_add_def)

lemma sample_replies:
  "fst (reply_all (items sample_world) (read_lines ('' gm '' @ [newline] @ [newline])) 0
         (read_lines (''https://x.com/home'' @ [newline] @ ''  '' @ [newline]))) = Returned [False]"
  by (simp add: sample_world_def read_lines_def newline_def js_trim_def is_js_space_def smooth_item_def
      getCannedReply_def random_pick_def replyToTweet_def replyDelay_def)

theorem fatal_configuration_exits_1_witness:
  "scraper_script sample_parse None offline_world =
     Some \<lparr>launched = False, output_file = None, ending = Exit 1\<rparr> \<and>
   lacks_auth_field sample_parse ''{}'' \<and>
   scraper_script sample_parse (Some ''{}'') offline_world =
     Some \<lparr>launched = False, output_file = None, ending = Exit 1\<rparr> \<and>
   tweets_file (sample_files\<lparr>tweets_file := None\<rparr>) = None \<and>
   finish (dispatcher_script sample_parse (sample_files\<lparr>tweets_file := None\<rparr>) sample_world) = Exit 1 \<and>
   list_all is_log
     (events (dispatcher_script sample_parse (sample_files\<lparr>tweets_file := None\<rparr>) sample_world)) \<and>
   finish (dispatcher_script sample_parse (sample_files\<lparr>auth_json := Some ''{}''\<rparr>) sample_world) = Exit 1 \<and>
   finish (dispatcher_script sample_parse sample_files sample_world) = Exit 0 \<and>
   (\<exists>r. scraper_script sample_parse (Some ''{auth}'') offline_world = Some r \<and> ending r = Exit 0)"
proof -
  note thm1 = fatal_configuration_exits_1[of None sample_parse offline_world
      "sample_files\<lparr>tweets_file := None\<rparr>" sample_world]
  note thm2 = fatal_configuration_exits_1[of "Some ''{}''" sample_parse offline_world
      "sample_files\<lparr>auth_json := Some ''{}''\<rparr>" sample_world]
  note thm3 = fatal_configuration_exits_1[of "Some ''{auth}''" sample_parse offline_world
      sample_files sample_world]
  have missing: "tweets_file (sample_files\<lparr>tweets_file := None\<rparr>) = None" by simp
  have present: "auth_json (sample_files\<lparr>auth_json := Some ''{}''\<rparr>) = Some ''{}''" by simp
  have files: "tweets_file sample_files = Some (''https://x.com/home'' @ [newline] @ ''  '' @ [newline])"
    "comments_file sample_files = Some ('' gm '' @ [newline] @ [newline])"
    "auth_json sample_files = Some ''{auth}''"
    by (simp_all add: sample_files_def)
  have world: "browser_ok sample_world" "browser_close_ok sample_world"
    "init_ok offline_world" "close_ok offline_world"
    by (simp_all add: sample_world_def offline_world_def)
  have runs: "scraper_script sample_parse (Some ''{auth}'') offline_world \<noteq> None"
    by (simp add: scraper_script_def sample_auth offline_main)
  have a: "scraper_script sample_parse None offline_world =
     Some \<lparr>launched = False, output_file = None, ending = Exit 1\<rparr>"
    using thm1 by blast
  have b: "scraper_script sample_parse (Some ''{}'') offline_world =
     Some \<lparr>launched = False, output_file = None, ending = Exit 1\<rparr>"
    using thm2 sample_lacks by blast
  have c: "finish (dispatcher_script sample_parse (sample_files\<lparr>tweets_file := None\<rparr>) sample_world) = Exit 1 \<and>
     list_all is_log
      (events (dispatcher_script sample_parse (sample_files\<lparr>tweets_file := None\<rparr>) sample_world))"
    using thm1 missing by blast
  have d: "finish (dispatcher_script sample_parse (sample_files\<lparr>auth_json := Some ''{}''\<rparr>) sample_world) = Exit 1"
    using thm2 present sample_lacks by blast
  have e: "finish (dispatcher_script sample_parse sample_files sample_world) = Exit 0"
    using thm3 files world sample_auth sample_replies by blast
  have f: "\<forall>r. scraper_script sample_parse (Some ''{auth}'') offline_world = Some r \<longrightarrow> ending r = Exit 0"
    using thm3 world sample_auth offline_all by blast
  from f runs have g: "\<exists>r. scraper_script sample_parse (Some ''{auth}'') offline_world = Some r \<and>
      ending r = Exit 0"
    by auto
  from a b c d e g sample_lacks missing show ?thesis by blast
qed

theorem no_output_without_urls_witness:
  "(\<exists>r. scraper_main targetKeywords offline_world = Some r \<and> output_file r = None) \<and>
   scraper_main targetKeywords still_world =
     Some \<lparr>launched = True,
           output_file = Some (''https://x.com/a/status/1'' @ newline # ''https://x.com/b/status/22''),
           ending = Exit 0\<rparr> \<and>
   (\<exists>urls. urls \<noteq> [] \<and>
      scrape_all (pages still_world) (keywords_of targetKeywords) [] = Some (Returned urls) \<and>
      ''https://x.com/a/status/1'' @ newline # ''https://x.com/b/status/22'' = js_join urls)"
proof -
  let ?r = "\<lparr>launched = True,
           output_file = Some (''https://x.com/a/status/1'' @ newline # ''https://x.com/b/status/22''),
           ending = Exit 0\<rparr>"
  have init: "init_ok offline_world" by (simp add: offline_world_def)
  have a: "\<forall>r. scraper_main targetKeywords offline_world = Some r \<longrightarrow> output_file r = None"
    using no_output_without_urls[of offline_world targetKeywords] offline_all by blast
  have "scraper_main targetKeywords still_world = Some ?r \<and>
        output_file ?r = Some (''https://x.com/a/status/1'' @ newline # ''https://x.com/b/status/22'')"
    using still_main by simp
  with no_output_without_urls[of still_world targetKeywords ?r
      "''https://x.com/a/status/1'' @ newline # ''https://x.com/b/status/22''"]
  have b: "\<exists>urls. urls \<noteq> [] \<and>
      scrape_all (pages still_world) (keywords_of targetKeywords) [] = Some (Returned urls) \<and>
      ''https://x.com/a/status/1'' @ newline # ''https://x.com/b/status/22'' = js_join urls"
    by blast
  from a offline_main
  have c: "\<exists>r. scraper_main targetKeywords offline_world = Some r \<and> output_file r = None"
    by simp
  from b c still_main show ?thesis by simp
qed

section \<open>Sets in insertion order\<close>

lemma set_set_add: "set (set_add s x) = insert x (set s)"
  by (auto simp: set_add_def)

lemma distinct_set_add: "distinct s \<Longrightarrow> distinct (set_add s x)"
  by (simp add: set_add_def)

lemma add_all_Nil: "add_all s [] = s"
  by (simp add: add_all_def)

lemma add_all_snoc: "add_all s (xs @ [x]) = set_add (add_all s xs) x"
  by (simp add: add_all_def)

lemma add_all_append: "add_all s (xs @ ys) = add_all (add_all s xs) ys"
  by (simp add: add_all_def)

lemma set_add_all: "set (add_all s xs) = set s \<union> set xs"
  by (induction xs rule: rev_induct) (auto simp: add_all_Nil add_all_snoc set_set_add)

lemma distinct_add_all: "distinct s \<Longrightarrow> distinct (add_all s xs)"
  by (induction xs rule: rev_induct) (auto simp: add_all_Nil add_all_snoc distinct_set_add)

lemma first_seen_snoc:
  "first_seen (xs @ [x]) = (if x \<in> set xs then first_seen xs else first_seen xs @ [x])"
  by (simp add: first_seen_def)

lemma set_first_seen: "set (first_seen xs) = set xs"
  by (simp add: first_seen_def)

lemma distinct_first_seen: "distinct (first_seen xs)"
  by (simp add: first_seen_def)

lemma add_all_first_seen:
  "add_all s xs = s @ filter (\<lambda>x. x \<notin> set s) (first_seen xs)"
proof (induction xs rule: rev_induct)
  case Nil
  then show ?case by (simp add: add_all_Nil first_seen_def)
next
  case (snoc x xs)
  show ?case
  proof (cases "x \<in> set xs")
    case True
    then have "x \<in> set (add_all s xs)" by (simp add: set_add_all)
    then have "add_all s (xs @ [x]) = add_all s xs"
      by (simp add: add_all_snoc set_add_def)
    with True snoc show ?thesis by (simp add: first_seen_snoc)
  next
    case False
    show ?thesis
    proof (cases "x \<in> set s")
      case True
      then have "x \<in> set (add_all s xs)" by (simp add: set_add_all)
      then have "add_all s (xs @ [x]) = add_all s xs"
        by (simp add: add_all_snoc set_add_def)
      with True False snoc show ?thesis by (simp add: first_seen_snoc)
    next
      case notin: False
      with False have "x \<notin> set (add_all s xs)" by (simp add: set_add_all)
      then have "add_all s (xs @ [x]) = add_all s xs @ [x]"
        by (simp add: add_all_snoc set_add_def)
      with notin False snoc show ?thesis by (simp add: first_seen_snoc)
    qed
  qed
qed

lemma new_Set_first_seen: "new_Set xs = first_seen xs"
  using add_all_first_seen[of "[]" xs] by (simp add: new_Set_def)

lemma first_seen_distinct: "distinct xs \<Longrightarrow> first_seen xs = xs"
proof -
  assume "distinct xs"
  then have "distinct (rev xs)" by simp
  then have same: "remdups (rev xs) = rev xs" by (rule distinct_remdups_id)
  show ?thesis unfolding first_seen_def same by simp
qed

lemma add_all_new_Set: "add_all s (new_Set xs) = add_all s xs"
  by (simp add: add_all_first_seen[of s] new_Set_first_seen first_seen_distinct distinct_first_seen)

lemma prefix_add_all: "prefix s (add_all s xs)"
  by (simp add: add_all_first_seen[of s])

lemma seen_urls_step: "a < b \<Longrightarrow> seen_urls env a b = batch env a @ seen_urls env (Suc a) b"
  by (simp add: seen_urls_def upt_conv_Cons)

lemma seen_urls_empty: "seen_urls env a a = []"
  by (simp add: seen_urls_def)

lemma seen_urls_one: "seen_urls env a (Suc a) = batch env a"
  by (simp add: seen_urls_def)

lemma scrape_loop_result:
  "scrape_loop env st = Some r \<Longrightarrow>
     (\<forall>st'. r = Returned st' \<longrightarrow>
        iter st \<le> iter st' \<and>
        tweetUrlSet st' = add_all (tweetUrlSet st) (seen_urls env (iter st) (iter st')))"
proof (induction rule: scrape_loop.raw_induct[rotated 1, consumes 1])
  case (1 loop env st r)
  show ?case
  proof (intro allI impI)
    fix st' assume r: "r = Returned st'"
    show "iter st \<le> iter st' \<and>
        tweetUrlSet st' = add_all (tweetUrlSet st) (seen_urls env (iter st) (iter st'))"
    proof (cases "length (tweetUrlSet st) < maxTweetsPerKeyword \<and> scrollTries st < maxScrollTries")
      case False
      with 1(2) r have "st' = st" by (auto split: if_splits)
      then show ?thesis by (simp add: seen_urls_empty add_all_Nil)
    next
      case True
      with 1(2) r obtain hrefs where hrefs: "anchors env (iter st) = Some hrefs"
        by (auto split: option.splits)
      let ?set = "add_all (tweetUrlSet st) (page_urls hrefs)"
      have b: "add_all (tweetUrlSet st) (batch env (iter st)) = ?set"
        using hrefs by (simp add: batch_def page_urls_def add_all_new_Set)
      show ?thesis
      proof (cases "maxTweetsPerKeyword \<le> length ?set")
        case full: True
        with 1(2) r True hrefs have "st' = st\<lparr>tweetUrlSet := ?set, iter := iter st + 1\<rparr>"
          by simp
        then show ?thesis using b by (simp add: seen_urls_one)
      next
        case False
        with 1(2) r True hrefs obtain st1 where
          call: "loop env st1 = Some r" and it: "iter st1 = iter st + 1"
          and s1: "tweetUrlSet st1 = ?set"
          by (auto split: if_splits option.splits)
        from 1(1)[OF call] r have le: "iter st1 \<le> iter st'"
          and eq: "tweetUrlSet st' = add_all (tweetUrlSet st1) (seen_urls env (iter st1) (iter st'))"
          by blast+
        from le it have lt: "iter st < iter st'" by simp
        have "tweetUrlSet st' = add_all (tweetUrlSet st) (batch env (iter st) @ seen_urls env (Suc (iter st)) (iter st'))"
          using eq it s1 b by (simp add: add_all_append)
        with lt show ?thesis by (simp add: seen_urls_step)
      qed
    qed
  qed
qed

section \<open>The result of one keyword\<close>

lemma scrape_result_first_seen:
  assumes "scrapeUrlsForKeyword env = Some (Returned urls)"
  shows "\<exists>n. urls = take maxTweetsPerKeyword (first_seen (seen_urls env 0 n))"
proof (cases "goto_ok env")
  case False
  with assms have "urls = []" by (simp add: scrapeUrlsForKeyword_def)
  then have "urls = take maxTweetsPerKeyword (first_seen (seen_urls env 0 0))"
    by (simp add: seen_urls_empty first_seen_def)
  then show ?thesis by blast
next
  case True
  with assms obtain h st where run: "scrape_loop env (initial_state h) = Some (Returned st)"
    and urls: "urls = take maxTweetsPerKeyword (tweetUrlSet st)"
    by (auto simp: scrapeUrlsForKeyword_def split: option.splits outcome.splits if_splits)
  from scrape_loop_result[OF run]
  have "tweetUrlSet st = add_all [] (seen_urls env 0 (iter st))"
    by (simp add: initial_state_def)
  then have "tweetUrlSet st = first_seen (seen_urls env 0 (iter st))"
    using new_Set_first_seen by (simp add: new_Set_def)
  with urls have "urls = take maxTweetsPerKeyword (first_seen (seen_urls env 0 (iter st)))"
    by simp
  then show ?thesis by blast
qed

lemma scrape_loop_accumulated:
  assumes "scrape_loop env (initial_state h) = Some (Returned st)"
  shows "tweetUrlSet st = first_seen (seen_urls env 0 (iter st))"
proof -
  from scrape_loop_result[OF assms]
  have "tweetUrlSet st = add_all [] (seen_urls env 0 (iter st))"
    by (simp add: initial_state_def)
  then show ?thesis
    using new_Set_first_seen by (simp add: new_Set_def)
qed

text \<open>
  C2.  Every array that \<^verbatim>\<open>scrapeUrlsForKeyword\<close> returns has at most
  \<open>maxTweetsPerKeyword = 100\<close> elements, and it is the empty array of a failed navigation
  or the first 100 elements of the set with which the loop ended.  When the loop ends in
  the state \<open>st\<close> (and the screenshot of an empty result resolves), that set holds the URLs
  that passed the filter in the \<open>iter st\<close> readings of the page that the loop made, each
  once, in the order in which they were first met, and the function returns its first 100
  elements: a list in that same order, of exactly 100 elements when the set has more.
\<close>

theorem scrape_result_within_quota:
  "(scrapeUrlsForKeyword env = Some (Returned urls) \<longrightarrow>
      length urls \<le> maxTweetsPerKeyword \<and>
      (\<not> goto_ok env \<and> urls = [] \<or>
       (\<exists>h st. goto_ok env \<and> first_height env = Some h \<and>
          scrape_loop env (initial_state h) = Some (Returned st) \<and>
          urls = take maxTweetsPerKeyword (tweetUrlSet st)))) \<and>
   (goto_ok env \<and> first_height env = Some h \<and>
    scrape_loop env (initial_state h) = Some (Returned st) \<and>
    (tweetUrlSet st \<noteq> [] \<or> screenshot_ok env) \<longrightarrow>
      maxTweetsPerKeyword = 100 \<and>
      tweetUrlSet st = first_seen (seen_urls env 0 (iter st)) \<and>
      scrapeUrlsForKeyword env = Some (Returned (take 100 (first_seen (seen_urls env 0 (iter st))))) \<and>
      length (take 100 (first_seen (seen_urls env 0 (iter st)))) \<le> 100 \<and>
      prefix (take 100 (first_seen (seen_urls env 0 (iter st)))) (first_seen (seen_urls env 0 (iter st))) \<and>
      (100 < length (first_seen (seen_urls env 0 (iter st))) \<longrightarrow>
         length (take 100 (first_seen (seen_urls env 0 (iter st)))) = 100))"
proof (intro conjI impI)
  assume ret: "scrapeUrlsForKeyword env = Some (Returned urls)"
  then show origin: "\<not> goto_ok env \<and> urls = [] \<or>
       (\<exists>h st. goto_ok env \<and> first_height env = Some h \<and>
          scrape_loop env (initial_state h) = Some (Returned st) \<and>
          urls = take maxTweetsPerKeyword (tweetUrlSet st))"
    by (auto simp: scrapeUrlsForKeyword_def split: option.splits outcome.splits if_splits)
  then show "length urls \<le> maxTweetsPerKeyword"
  proof
    assume "\<not> goto_ok env \<and> urls = []"
    then show ?thesis by simp
  next
    assume "\<exists>h st. goto_ok env \<and> first_height env = Some h \<and>
          scrape_loop env (initial_state h) = Some (Returned st) \<and>
          urls = take maxTweetsPerKeyword (tweetUrlSet st)"
    then show ?thesis by auto
  qed
next
  assume a: "goto_ok env \<and> first_height env = Some h \<and>
    scrape_loop env (initial_state h) = Some (Returned st) \<and>
    (tweetUrlSet st \<noteq> [] \<or> screenshot_ok env)"
  then have run: "scrape_loop env (initial_state h) = Some (Returned st)" by simp
  let ?acc = "first_seen (seen_urls env 0 (iter st))"
  show quota: "maxTweetsPerKeyword = 100" by (simp add: maxTweetsPerKeyword_def)
  show acc: "tweetUrlSet st = ?acc" using run by (rule scrape_loop_accumulated)
  from a have "scrapeUrlsForKeyword env = Some (Returned (take maxTweetsPerKeyword (tweetUrlSet st)))"
    by (auto simp: scrapeUrlsForKeyword_def)
  then show "scrapeUrlsForKeyword env = Some (Returned (take 100 ?acc))"
    unfolding quota acc .
  show "length (take 100 ?acc) \<le> 100" by simp
  show "prefix (take 100 ?acc) ?acc" by (rule take_is_prefix)
next
  assume "100 < length (first_seen (seen_urls env 0 (iter st)))"
  then show "length (take 100 (first_seen (seen_urls env 0 (iter st)))) = 100" by simp
qed

section \<open>The pattern of an item URL, and lines\<close>

lemma is_tweet_url_iff:
  "is_tweet_url u \<longleftrightarrow>
     (\<exists>user digits. u = ''https://x.com/'' @ user @ ''/status/'' @ digits \<and>
        user \<noteq> [] \<and> CHR ''/'' \<notin> set user \<and> digits \<noteq> [] \<and> list_all is_digit digits)"
proof
  assume m: "is_tweet_url u"
  then obtain rest where rest: "strip_prefix ''https://x.com/'' u = Some rest"
    by (auto simp: is_tweet_url_def split: option.splits)
  let ?user = "takeWhile (\<lambda>c. c \<noteq> CHR ''/'') rest"
  let ?tail = "dropWhile (\<lambda>c. c \<noteq> CHR ''/'') rest"
  from m rest obtain ds where ds: "strip_prefix ''/status/'' ?tail = Some ds"
    and ok: "?user \<noteq> []" "ds \<noteq> []" "list_all is_digit ds"
    by (auto simp: is_tweet_url_def split: option.splits)
  from rest have "u = ''https://x.com/'' @ rest" by (simp only: strip_prefix_Some)
  moreover from ds have "?tail = ''/status/'' @ ds" by (simp only: strip_prefix_Some)
  moreover have "rest = ?user @ ?tail" by simp
  ultimately have "u = ''https://x.com/'' @ ?user @ ''/status/'' @ ds" by metis
  moreover have "CHR ''/'' \<notin> set ?user" by (auto dest: set_takeWhileD)
  ultimately show "\<exists>user digits. u = ''https://x.com/'' @ user @ ''/status/'' @ digits \<and>
        user \<noteq> [] \<and> CHR ''/'' \<notin> set user \<and> digits \<noteq> [] \<and> list_all is_digit digits"
    using ok by blast
next
  assume "\<exists>user digits. u = ''https://x.com/'' @ user @ ''/status/'' @ digits \<and>
        user \<noteq> [] \<and> CHR ''/'' \<notin> set user \<and> digits \<noteq> [] \<and> list_all is_digit digits"
  then obtain user digits where u: "u = ''https://x.com/'' @ (user @ ''/status/'' @ digits)"
    and ok: "user \<noteq> []" "CHR ''/'' \<notin> set user" "digits \<noteq> []" "list_all is_digit digits"
    by auto
  let ?rest = "user @ ''/status/'' @ digits"
  have a: "strip_prefix ''https://x.com/'' u = Some ?rest"
    unfolding u by (simp only: strip_prefix_Some)
  have all: "\<forall>c\<in>set user. c \<noteq> CHR ''/''" using ok(2) by auto
  have t: "takeWhile (\<lambda>c. c \<noteq> CHR ''/'') ?rest = user"
    using all by (simp add: takeWhile_append2)
  have "dropWhile (\<lambda>c. c \<noteq> CHR ''/'') ?rest = dropWhile (\<lambda>c. c \<noteq> CHR ''/'') (''/status/'' @ digits)"
    by (rule dropWhile_append2) (simp add: all)
  then have d: "dropWhile (\<lambda>c. c \<noteq> CHR ''/'') ?rest = ''/status/'' @ digits" by simp
  have s: "strip_prefix ''/status/'' (''/status/'' @ digits) = Some digits"
    by (simp only: strip_prefix_Some)
  show "is_tweet_url u"
    unfolding is_tweet_url_def a option.case t d s using ok by simp
qed

lemma js_split_nonempty: "js_split s \<noteq> []"
  by (induction s) (auto split: list.splits)

lemma js_split_line: "newline \<notin> set x \<Longrightarrow> js_split x = [x]"
  by (induction x) auto

lemma js_split_append:
  "newline \<notin> set x \<Longrightarrow> js_split (x @ newline # rest) = x # js_split rest"
  by (induction x) auto

lemma js_split_join:
  "xs \<noteq> [] \<Longrightarrow> \<forall>x\<in>set xs. newline \<notin> set x \<Longrightarrow> js_split (js_join xs) = xs"
proof (induction xs rule: js_join.induct)
  case 1
  then show ?case by simp
next
  case (2 x)
  then show ?case by (simp add: js_split_line)
next
  case (3 x y ys)
  then show ?case by (simp add: js_split_append)
qed

lemma batch_canonical: "\<forall>u\<in>set (seen_urls env a b). is_tweet_url u"
  by (auto simp: seen_urls_def batch_def split: option.splits)

lemma scrape_urls_canonical:
  assumes "scrapeUrlsForKeyword env = Some (Returned urls)"
  shows "distinct urls \<and> (\<forall>u\<in>set urls. is_tweet_url u)"
proof -
  from scrape_result_first_seen[OF assms] obtain n
    where urls: "urls = take maxTweetsPerKeyword (first_seen (seen_urls env 0 n))" by blast
  have "distinct urls" unfolding urls by (simp add: distinct_first_seen)
  moreover have "set urls \<subseteq> set (seen_urls env 0 n)"
    unfolding urls using set_take_subset[of maxTweetsPerKeyword "first_seen (seen_urls env 0 n)"]
    by (simp add: set_first_seen)
  ultimately show ?thesis using batch_canonical[of env 0 n] by blast
qed

lemma scrape_all_canonical:
  "scrape_all pgs kws acc = Some (Returned allUrls) \<Longrightarrow> distinct acc \<Longrightarrow>
   \<forall>u\<in>set acc. is_tweet_url u \<Longrightarrow>
   distinct allUrls \<and> (\<forall>u\<in>set allUrls. is_tweet_url u)"
proof (induction kws arbitrary: acc)
  case Nil
  then show ?case by simp
next
  case (Cons keyword rest)
  from Cons.prems(1) obtain urls where one: "scrapeUrlsForKeyword (pgs keyword) = Some (Returned urls)"
    and more: "scrape_all pgs rest (add_all acc urls) = Some (Returned allUrls)"
    by (auto split: option.splits outcome.splits)
  from scrape_urls_canonical[OF one] Cons.prems(2,3)
  have "distinct (add_all acc urls)" and "\<forall>u\<in>set (add_all acc urls). is_tweet_url u"
    by (auto simp: distinct_add_all set_add_all)
  with Cons.IH[OF more] show ?case by blast
qed

lemma tweet_url_not_blank: "is_tweet_url u \<Longrightarrow> \<not> list_all is_js_space u"
  by (auto simp: is_tweet_url_iff is_js_space_def)

text \<open>
  C1.  What a run of the scraper writes to its output file is a list of URLs joined by
  newlines that is not empty, has no repetition, and whose every entry is
  \<^verbatim>\<open>https://x.com/\<close>, a user segment that is not empty and has no slash, \<^verbatim>\<open>/status/\<close>
  and one or more digits; no entry is blank.  When no entry holds a newline, the lines of
  the file are these entries.
\<close>

theorem output_list_canonical_and_distinct:
  assumes "scraper_main kws w = Some r" and "output_file r = Some written"
  shows "\<exists>urls. written = js_join urls \<and> urls \<noteq> [] \<and> distinct urls \<and>
           (\<forall>u\<in>set urls. \<exists>user digits.
               u = ''https://x.com/'' @ user @ ''/status/'' @ digits \<and>
               user \<noteq> [] \<and> CHR ''/'' \<notin> set user \<and> digits \<noteq> [] \<and> list_all is_digit digits) \<and>
           (\<forall>u\<in>set urls. \<not> list_all is_js_space u) \<and>
           ((\<forall>u\<in>set urls. newline \<notin> set u) \<longrightarrow> js_split written = urls)"
proof -
  from assms obtain urls where urls: "urls \<noteq> []"
    and run: "scrape_all (pages w) (keywords_of kws) [] = Some (Returned urls)"
    and written: "written = js_join urls"
    by (auto simp: scraper_main_def split: option.splits outcome.splits if_splits)
  from scrape_all_canonical[OF run] have d: "distinct urls" and c: "\<forall>u\<in>set urls. is_tweet_url u"
    by simp_all
  from c have shape: "\<forall>u\<in>set urls. \<exists>user digits.
               u = ''https://x.com/'' @ user @ ''/status/'' @ digits \<and>
               user \<noteq> [] \<and> CHR ''/'' \<notin> set user \<and> digits \<noteq> [] \<and> list_all is_digit digits"
    by (simp only: is_tweet_url_iff)
  from c have nb: "\<forall>u\<in>set urls. \<not> list_all is_js_space u"
    using tweet_url_not_blank by blast
  have "(\<forall>u\<in>set urls. newline \<notin> set u) \<longrightarrow> js_split written = urls"
    unfolding written using js_split_join[OF urls] by blast
  with urls written d shape nb show ?thesis by blast
qed

theorem output_list_canonical_and_distinct_witness:
  "scraper_main targetKeywords still_world =
     Some \<lparr>launched = True,
           output_file = Some (''https://x.com/a/status/1'' @ newline # ''https://x.com/b/status/22''),
           ending = Exit 0\<rparr> \<and>
   (\<exists>urls. ''https://x.com/a/status/1'' @ newline # ''https://x.com/b/status/22'' = js_join urls \<and>
      urls \<noteq> [] \<and> distinct urls \<and>
      (\<forall>u\<in>set urls. \<exists>user digits.
          u = ''https://x.com/'' @ user @ ''/status/'' @ digits \<and>
          user \<noteq> [] \<and> CHR ''/'' \<notin> set user \<and> digits \<noteq> [] \<and> list_all is_digit digits))"
proof -
  let ?written = "''https://x.com/a/status/1'' @ newline # ''https://x.com/b/status/22''"
  let ?r = "\<lparr>launched = True, output_file = Some ?written, ending = Exit 0\<rparr>"
  have out: "output_file ?r = Some ?written" by simp
  from output_list_canonical_and_distinct[OF still_main out] still_main
  show ?thesis by blast
qed

text \<open>On the page with 120 URLs the loop ends after one reading and 100 of them are returned.\<close>

lemma crowded_url_canonical: "is_tweet_url (crowded_url k)"
proof -
  have "crowded_url k = ''https://x.com/'' @ ''u'' @ ''/status/'' @ replicate (Suc k) (CHR ''7'')"
    by (simp add: crowded_url_def)
  moreover have "list_all is_digit (replicate (Suc k) (CHR ''7''))"
    by (simp add: list_all_iff is_digit_def)
  moreover have "''u'' \<noteq> [] \<and> CHR ''/'' \<notin> set ''u'' \<and> replicate (Suc k) (CHR ''7'') \<noteq> []"
    by simp
  ultimately show ?thesis unfolding is_tweet_url_iff by blast
qed

lemma crowded_url_inj: "inj crowded_url"
proof (rule injI)
  fix j k assume "crowded_url j = crowded_url k"
  then have "length (crowded_url j) = length (crowded_url k)" by simp
  then show "j = k" by (simp add: crowded_url_def)
qed

lemma crowded_links_facts:
  "length crowded_links = 120" "distinct crowded_links" "filter is_tweet_url crowded_links = crowded_links"
proof -
  show "length crowded_links = 120" by (simp add: crowded_links_def)
  have "inj_on crowded_url (set [0..<120])"
    by (rule inj_on_subset[OF crowded_url_inj]) simp
  then show "distinct crowded_links"
    unfolding crowded_links_def by (simp only: distinct_map distinct_upt simp_thms)
  show "filter is_tweet_url crowded_links = crowded_links"
    unfolding crowded_links_def by (rule filter_True) (auto simp: crowded_url_canonical)
qed

lemma crowded_first_reading: "add_all [] (page_urls crowded_links) = crowded_links"
proof -
  have "page_urls crowded_links = crowded_links"
    by (simp add: page_urls_def crowded_links_facts new_Set_first_seen first_seen_distinct)
  moreover have "add_all [] crowded_links = crowded_links"
    using new_Set_first_seen[of crowded_links] crowded_links_facts(2)
    by (simp add: new_Set_def first_seen_distinct)
  ultimately show ?thesis by simp
qed

lemma crowded_loop:
  "scrape_loop crowded_page (initial_state 900) =
     Some (Returned \<lparr>tweetUrlSet = crowded_links, lastHeight = 900, scrollTries = 0, iter = 1\<rparr>)"
  by (subst scrape_loop.simps)
    (simp add: initial_state_def crowded_page_def crowded_first_reading crowded_links_facts
      maxTweetsPerKeyword_def maxScrollTries_def)

theorem scrape_result_within_quota_witness:
  "goto_ok crowded_page \<and> first_height crowded_page = Some 900 \<and>
   scrape_loop crowded_page (initial_state 900) =
     Some (Returned \<lparr>tweetUrlSet = crowded_links, lastHeight = 900, scrollTries = 0, iter = 1\<rparr>) \<and>
   crowded_links = first_seen (seen_urls crowded_page 0 1) \<and>
   length crowded_links = 120 \<and>
   scrapeUrlsForKeyword crowded_page = Some (Returned (take 100 crowded_links)) \<and>
   length (take 100 crowded_links) = 100 \<and>
   length (take 100 crowded_links) \<le> maxTweetsPerKeyword \<and>
   take 100 crowded_links = map crowded_url [0..<100]"
proof -
  let ?st = "\<lparr>tweetUrlSet = crowded_links, lastHeight = 900, scrollTries = 0, iter = 1\<rparr>"
  have page: "goto_ok crowded_page" "first_height crowded_page = Some 900" "screenshot_ok crowded_page"
    by (simp_all add: crowded_page_def)
  have hyp: "goto_ok crowded_page \<and> first_height crowded_page = Some 900 \<and>
      scrape_loop crowded_page (initial_state 900) = Some (Returned ?st) \<and>
      (tweetUrlSet ?st \<noteq> [] \<or> screenshot_ok crowded_page)"
    using page crowded_loop by simp
  from scrape_result_within_quota[of crowded_page "take 100 crowded_links" 900 ?st] hyp
  have acc: "tweetUrlSet ?st = first_seen (seen_urls crowded_page 0 (iter ?st))"
    and ret: "scrapeUrlsForKeyword crowded_page =
        Some (Returned (take 100 (first_seen (seen_urls crowded_page 0 (iter ?st)))))"
    and cut: "100 < length (first_seen (seen_urls crowded_page 0 (iter ?st))) \<longrightarrow>
        length (take 100 (first_seen (seen_urls crowded_page 0 (iter ?st)))) = 100"
    by blast+
  from acc have same: "first_seen (seen_urls crowded_page 0 1) = crowded_links" by simp
  have "take 100 crowded_links = map crowded_url (take 100 [0..<120])"
    unfolding crowded_links_def by (rule take_map)
  also have "take 100 [0..<120] = [0..<100]" by simp
  finally have shape: "take 100 crowded_links = map crowded_url [0..<100]" .
  from ret same have returned: "scrapeUrlsForKeyword crowded_page = Some (Returned (take 100 crowded_links))"
    by simp
  with scrape_result_within_quota[of crowded_page "take 100 crowded_links" 900 ?st]
  have within: "length (take 100 crowded_links) \<le> maxTweetsPerKeyword" by blast
  from returned cut same crowded_links_facts(1) page crowded_loop shape within show ?thesis by simp
qed

section \<open>The end of the collection loop\<close>

lemma scrape_loop_exit:
  assumes "\<not> (length (tweetUrlSet st) < maxTweetsPerKeyword \<and> scrollTries st < maxScrollTries)"
  shows "scrape_loop env st = Some (Returned st)"
  by (subst scrape_loop.simps) (rule if_not_P[OF assms])

lemma scrape_loop_step:
  "(\<exists>r. scrape_loop env st = Some r \<and> (\<forall>st'. r = Returned st' \<longrightarrow> iter st' \<le> iter st + 1)) \<or>
   (scrape_loop env st = scrape_loop env (next_state env st) \<and>
    heights env (iter st) \<noteq> None)"
proof (cases "length (tweetUrlSet st) < maxTweetsPerKeyword \<and> scrollTries st < maxScrollTries")
  case False
  then have "scrape_loop env st = Some (Returned st)"
    by (rule scrape_loop_exit)
  then show ?thesis by simp
next
  case True
  show ?thesis
  proof (cases "anchors env (iter st)")
    case None
    with True have "scrape_loop env st = Some Thrown"
      by (subst scrape_loop.simps) simp
    then show ?thesis by simp
  next
    case (Some hrefs)
    let ?set = "add_all (tweetUrlSet st) (page_urls hrefs)"
    have b: "add_all (tweetUrlSet st) (batch env (iter st)) = ?set"
      using Some by (simp add: batch_def page_urls_def add_all_new_Set)
    show ?thesis
    proof (cases "maxTweetsPerKeyword \<le> length ?set")
      case full: True
      with True Some have "scrape_loop env st =
          Some (Returned (st\<lparr>tweetUrlSet := ?set, iter := iter st + 1\<rparr>))"
        by (subst scrape_loop.simps) simp
      then show ?thesis by simp
    next
      case room: False
      show ?thesis
      proof (cases "scroll_ok env (iter st)")
        case False
        with True Some room have "scrape_loop env st = Some Thrown"
          by (subst scrape_loop.simps) simp
        then show ?thesis by simp
      next
        case scrolled: True
        show ?thesis
        proof (cases "heights env (iter st)")
          case None
          with True Some room scrolled have "scrape_loop env st = Some Thrown"
            by (subst scrape_loop.simps) simp
          then show ?thesis by simp
        next
          case (Some newHeight)
          have "scrape_loop env st = scrape_loop env (next_state env st)"
            using True \<open>anchors env (iter st) = Some hrefs\<close> room scrolled Some b
            by (subst scrape_loop.simps) (simp add: next_state_def)
          with Some show ?thesis by simp
        qed
      qed
    qed
  qed
qed

lemma stalled_loop_returns:
  "maxScrollTries \<le> scrollTries st + m \<Longrightarrow>
   \<forall>j<m. heights env (iter st + j) = Some (lastHeight st) \<Longrightarrow>
   \<exists>r. scrape_loop env st = Some r \<and> (\<forall>st'. r = Returned st' \<longrightarrow> iter st' \<le> iter st + m)"
proof (induction m arbitrary: st)
  case 0
  then have "\<not> (length (tweetUrlSet st) < maxTweetsPerKeyword \<and> scrollTries st < maxScrollTries)"
    by simp
  then have "scrape_loop env st = Some (Returned st)"
    by (rule scrape_loop_exit)
  then show ?case by simp
next
  case (Suc m)
  from scrape_loop_step[of env st] show ?case
  proof
    assume "\<exists>r. scrape_loop env st = Some r \<and> (\<forall>st'. r = Returned st' \<longrightarrow> iter st' \<le> iter st + 1)"
    then show ?thesis by fastforce
  next
    assume step: "scrape_loop env st = scrape_loop env (next_state env st) \<and>
      heights env (iter st) \<noteq> None"
    from Suc.prems(2) have same: "heights env (iter st) = Some (lastHeight st)" by auto
    let ?n = "next_state env st"
    have n: "iter ?n = iter st + 1" "lastHeight ?n = lastHeight st" "scrollTries ?n = scrollTries st + 1"
      using same by (simp_all add: next_state_def)
    have "maxScrollTries \<le> scrollTries ?n + m" using Suc.prems(1) n by simp
    moreover have "\<forall>j<m. heights env (iter ?n + j) = Some (lastHeight ?n)"
      using Suc.prems(2) n by auto
    ultimately obtain r where "scrape_loop env ?n = Some r"
      and "\<forall>st'. r = Returned st' \<longrightarrow> iter st' \<le> iter ?n + m"
      using Suc.IH[of ?n] by blast
    with step n show ?thesis by simp
  qed
qed

lemma loop_reaches:
  "(\<exists>r. scrape_loop env st = Some r \<and> (\<forall>st'. r = Returned st' \<longrightarrow> iter st' \<le> iter st + k)) \<or>
   (\<exists>st1. scrape_loop env st = scrape_loop env st1 \<and> iter st1 = iter st + k \<and>
      (if k = 0 then st1 = st else heights env (iter st + k - 1) = Some (lastHeight st1)))"
proof (induction k)
  case 0
  then show ?case by simp
next
  case (Suc k)
  from Suc show ?case
  proof
    assume "\<exists>r. scrape_loop env st = Some r \<and> (\<forall>st'. r = Returned st' \<longrightarrow> iter st' \<le> iter st + k)"
    then show ?thesis by fastforce
  next
    assume "\<exists>st1. scrape_loop env st = scrape_loop env st1 \<and> iter st1 = iter st + k \<and>
      (if k = 0 then st1 = st else heights env (iter st + k - 1) = Some (lastHeight st1))"
    then obtain st1 where eq: "scrape_loop env st = scrape_loop env st1"
      and it: "iter st1 = iter st + k" by blast
    from scrape_loop_step[of env st1] show ?thesis
    proof
      assume "\<exists>r. scrape_loop env st1 = Some r \<and> (\<forall>st'. r = Returned st' \<longrightarrow> iter st' \<le> iter st1 + 1)"
      with eq it show ?thesis by fastforce
    next
      assume step: "scrape_loop env st1 = scrape_loop env (next_state env st1) \<and>
        heights env (iter st1) \<noteq> None"
      let ?n = "next_state env st1"
      from step obtain h where h: "heights env (iter st1) = Some h" by blast
      then have "iter ?n = iter st + Suc k" "heights env (iter st + Suc k - 1) = Some (lastHeight ?n)"
        using it by (simp_all add: next_state_def)
      with eq step show ?thesis by auto
    qed
  qed
qed

lemma stall_window_returns:
  assumes "\<forall>j<maxScrollTries. heights env (k + j) = height_before env h k"
  shows "\<exists>r. scrape_loop env (initial_state h) = Some r \<and>
           (\<forall>st'. r = Returned st' \<longrightarrow> iter st' \<le> k + maxScrollTries)"
proof -
  let ?s = "initial_state h"
  have i0: "iter ?s = 0" "lastHeight ?s = h" by (simp_all add: initial_state_def)
  have "(\<exists>r. scrape_loop env ?s = Some r \<and> (\<forall>st'. r = Returned st' \<longrightarrow> iter st' \<le> k)) \<or>
    (\<exists>st1. scrape_loop env ?s = scrape_loop env st1 \<and> iter st1 = k \<and>
      (if k = 0 then st1 = ?s else heights env (k - 1) = Some (lastHeight st1)))"
    using loop_reaches[of env ?s k] unfolding i0(1) by (simp cong: if_cong)
  then show ?thesis
  proof
    assume "\<exists>r. scrape_loop env ?s = Some r \<and> (\<forall>st'. r = Returned st' \<longrightarrow> iter st' \<le> k)"
    then show ?thesis by fastforce
  next
    assume "\<exists>st1. scrape_loop env ?s = scrape_loop env st1 \<and> iter st1 = k \<and>
      (if k = 0 then st1 = ?s else heights env (k - 1) = Some (lastHeight st1))"
    then obtain st1 where eq: "scrape_loop env ?s = scrape_loop env st1"
      and it: "iter st1 = k"
      and hb: "if k = 0 then st1 = ?s else heights env (k - 1) = Some (lastHeight st1)"
      by blast
    from hb i0 have "height_before env h k = Some (lastHeight st1)"
      by (auto simp: height_before_def split: if_splits)
    with assms it have "\<forall>j<maxScrollTries. heights env (iter st1 + j) = Some (lastHeight st1)"
      by simp
    moreover have "maxScrollTries \<le> scrollTries st1 + maxScrollTries" by simp
    ultimately obtain r where "scrape_loop env st1 = Some r"
      and "\<forall>st'. r = Returned st' \<longrightarrow> iter st' \<le> iter st1 + maxScrollTries"
      using stalled_loop_returns[of st1 maxScrollTries env] by blast
    with eq it show ?thesis by simp
  qed
qed

lemma scrape_loop_continue:
  assumes "length (tweetUrlSet st) < maxTweetsPerKeyword" and "scrollTries st < maxScrollTries"
    and "anchors env (iter st) = Some hrefs"
    and "length (add_all (tweetUrlSet st) (page_urls hrefs)) < maxTweetsPerKeyword"
    and "scroll_ok env (iter st)" and "heights env (iter st) = Some newHeight"
  shows "scrape_loop env st =
           scrape_loop env
             (st\<lparr>tweetUrlSet := add_all (tweetUrlSet st) (page_urls hrefs),
                 lastHeight := newHeight,
                 scrollTries := (if newHeight = lastHeight st then scrollTries st + 1 else 0),
                 iter := iter st + 1\<rparr>)"
  using assms by (subst scrape_loop.simps) simp

text \<open>
  C3, as amended.  The loop is left as soon as the stall counter is 20 or the set holds 100
  URLs; an iteration that goes on adds 1 to the counter when the measured height equals
  the last one and sets it to 0, and takes the new height, when it differs.  Hence the
  loop comes to an end, by returning or by a rejected call, within \<open>k + 20\<close> iterations
  whenever 20 measurements in a row from iteration \<open>k\<close> on give the height that the loop
  holds there; in particular \<^verbatim>\<open>scrapeUrlsForKeyword\<close> returns or throws when the height
  never changes.
\<close>

theorem stall_detection_terminates:
  "maxScrollTries = 20 \<and>
   (\<not> (length (tweetUrlSet st) < maxTweetsPerKeyword \<and> scrollTries st < maxScrollTries) \<longrightarrow>
      scrape_loop env st = Some (Returned st)) \<and>
   (length (tweetUrlSet st) < maxTweetsPerKeyword \<and> scrollTries st < maxScrollTries \<and>
    anchors env (iter st) = Some hrefs \<and>
    length (add_all (tweetUrlSet st) (page_urls hrefs)) < maxTweetsPerKeyword \<and>
    scroll_ok env (iter st) \<and> heights env (iter st) = Some newHeight \<longrightarrow>
      scrape_loop env st =
        scrape_loop env
          (st\<lparr>tweetUrlSet := add_all (tweetUrlSet st) (page_urls hrefs),
              lastHeight := newHeight,
              scrollTries := (if newHeight = lastHeight st then scrollTries st + 1 else 0),
              iter := iter st + 1\<rparr>)) \<and>
   ((\<forall>j<maxScrollTries. heights env (k + j) = height_before env h k) \<longrightarrow>
      (\<exists>r. scrape_loop env (initial_state h) = Some r \<and>
           (\<forall>st'. r = Returned st' \<longrightarrow> iter st' \<le> k + maxScrollTries))) \<and>
   ((\<forall>j. heights env j = Some h) \<and> first_height env = Some h \<longrightarrow>
      (\<exists>r. scrapeUrlsForKeyword env = Some r))"
proof (intro conjI impI)
  show "maxScrollTries = 20" by (simp add: maxScrollTries_def)
next
  assume "\<not> (length (tweetUrlSet st) < maxTweetsPerKeyword \<and> scrollTries st < maxScrollTries)"
  then show "scrape_loop env st = Some (Returned st)" by (rule scrape_loop_exit)
next
  assume "length (tweetUrlSet st) < maxTweetsPerKeyword \<and> scrollTries st < maxScrollTries \<and>
    anchors env (iter st) = Some hrefs \<and>
    length (add_all (tweetUrlSet st) (page_urls hrefs)) < maxTweetsPerKeyword \<and>
    scroll_ok env (iter st) \<and> heights env (iter st) = Some newHeight"
  then show "scrape_loop env st =
        scrape_loop env
          (st\<lparr>tweetUrlSet := add_all (tweetUrlSet st) (page_urls hrefs),
              lastHeight := newHeight,
              scrollTries := (if newHeight = lastHeight st then scrollTries st + 1 else 0),
              iter := iter st + 1\<rparr>)"
    using scrape_loop_continue by blast
next
  assume "\<forall>j<maxScrollTries. heights env (k + j) = height_before env h k"
  then show "\<exists>r. scrape_loop env (initial_state h) = Some r \<and>
           (\<forall>st'. r = Returned st' \<longrightarrow> iter st' \<le> k + maxScrollTries)"
    by (rule stall_window_returns)
next
  assume a: "(\<forall>j. heights env j = Some h) \<and> first_height env = Some h"
  then have "\<forall>j<maxScrollTries. heights env (0 + j) = height_before env h 0"
    by (simp add: height_before_def)
  from stall_window_returns[OF this] obtain r where "scrape_loop env (initial_state h) = Some r"
    by blast
  with a show "\<exists>r. scrapeUrlsForKeyword env = Some r"
    by (cases r) (auto simp: scrapeUrlsForKeyword_def)
qed

theorem stall_detection_terminates_witness:
  "(\<forall>j. heights still_page j = Some 900) \<and> first_height still_page = Some 900 \<and>
   height_before still_page 900 0 = Some 900 \<and>
   (\<exists>r. scrape_loop still_page (initial_state 900) = Some r \<and>
        (\<forall>st'. r = Returned st' \<longrightarrow> iter st' \<le> 0 + maxScrollTries)) \<and>
   (\<exists>r. scrapeUrlsForKeyword still_page = Some r) \<and>
   scrape_loop still_page ((initial_state 900)\<lparr>scrollTries := 20\<rparr>) =
     Some (Returned ((initial_state 900)\<lparr>scrollTries := 20\<rparr>)) \<and>
   scrape_loop still_page (initial_state 900) =
     scrape_loop still_page
       \<lparr>tweetUrlSet = [''https://x.com/a/status/1'', ''https://x.com/b/status/22''],
        lastHeight = 900, scrollTries = 1, iter = 1\<rparr>"
proof -
  let ?hrefs = "[''https://x.com/a/status/1'', ''https://x.com/a/status/1/photo/1'',
                 ''https://x.com/b/status/22'', ''https://x.com/a/status/1'']"
  note inst = stall_detection_terminates[of _ still_page _ _ 0 900]
  have h: "\<forall>j. heights still_page j = Some 900" "first_height still_page = Some 900"
    by (simp_all add: still_page_def)
  have win: "\<forall>j<maxScrollTries. heights still_page (0 + j) = height_before still_page 900 0"
    by (simp add: still_page_def height_before_def)
  have stop: "\<not> (length (tweetUrlSet ((initial_state 900)\<lparr>scrollTries := 20\<rparr>)) < maxTweetsPerKeyword \<and>
      scrollTries ((initial_state 900)\<lparr>scrollTries := 20\<rparr>) < maxScrollTries)"
    by (simp add: maxScrollTries_def)
  have urls: "add_all [] (page_urls ?hrefs) = [''https://x.com/a/status/1'', ''https://x.com/b/status/22'']"
    by code_simp
  have go: "length (tweetUrlSet (initial_state 900)) < maxTweetsPerKeyword \<and>
      scrollTries (initial_state 900) < maxScrollTries \<and>
      anchors still_page (iter (initial_state 900)) = Some ?hrefs \<and>
      length (add_all (tweetUrlSet (initial_state 900)) (page_urls ?hrefs)) < maxTweetsPerKeyword \<and>
      scroll_ok still_page (iter (initial_state 900)) \<and>
      heights still_page (iter (initial_state 900)) = Some 900"
    by (simp add: initial_state_def urls still_page_def maxTweetsPerKeyword_def maxScrollTries_def)
  have a: "\<exists>r. scrape_loop still_page (initial_state 900) = Some r \<and>
        (\<forall>st'. r = Returned st' \<longrightarrow> iter st' \<le> 0 + maxScrollTries)"
    using inst win by blast
  have b: "\<exists>r. scrapeUrlsForKeyword still_page = Some r"
    using inst h by blast
  have c: "scrape_loop still_page ((initial_state 900)\<lparr>scrollTries := 20\<rparr>) =
     Some (Returned ((initial_state 900)\<lparr>scrollTries := 20\<rparr>))"
    using stall_detection_terminates[of "(initial_state 900)\<lparr>scrollTries := 20\<rparr>" still_page] stop
    by blast
  have "scrape_loop still_page (initial_state 900) =
     scrape_loop still_page
       ((initial_state 900)\<lparr>tweetUrlSet := add_all (tweetUrlSet (initial_state 900)) (page_urls ?hrefs),
          lastHeight := 900,
          scrollTries := (if 900 = lastHeight (initial_state 900) then scrollTries (initial_state 900) + 1 else 0),
          iter := iter (initial_state 900) + 1\<rparr>)"
    using stall_detection_terminates[of "initial_state 900" still_page ?hrefs 900] go
    by blast
  then have d: "scrape_loop still_page (initial_state 900) =
     scrape_loop still_page
       \<lparr>tweetUrlSet = [''https://x.com/a/status/1'', ''https://x.com/b/status/22''],
        lastHeight = 900, scrollTries = 1, iter = 1\<rparr>"
    by (simp add: initial_state_def urls)
  have e: "height_before still_page 900 0 = Some 900"
    by (simp add: height_before_def)
  from a b c d e h show ?thesis by blast
qed

lemma endless_loops:
  "scrape_loop env st = Some r \<Longrightarrow>
     env = endless_page \<longrightarrow> tweetUrlSet st = [] \<longrightarrow> scrollTries st = 0 \<longrightarrow>
     lastHeight st = int (iter st) \<longrightarrow> False"
proof (induction rule: scrape_loop.raw_induct[rotated 1, consumes 1])
  case (1 loop env st r)
  show ?case
  proof (intro impI)
    assume "env = endless_page" and "tweetUrlSet st = []" and "scrollTries st = 0"
      and "lastHeight st = int (iter st)"
    with 1(2) show False
      by (auto simp: endless_page_def maxTweetsPerKeyword_def maxScrollTries_def add_all_def
          page_urls_def new_Set_def split: if_splits dest!: 1(1))
  qed
qed

text \<open>
  C3 as first stated fails.  The loop does not come to an end for every sequence of
  heights: when the page is
  higher at every measurement and has no matching link, the counter stays at 0, the set
  stays empty, and \<^verbatim>\<open>scrapeUrlsForKeyword\<close> never returns.
\<close>

theorem endless_page_never_returns: "scrapeUrlsForKeyword endless_page = None"
proof -
  have "scrape_loop endless_page (initial_state 0) = None"
  proof (cases "scrape_loop endless_page (initial_state 0)")
    case (Some r)
    from endless_loops[OF this] show ?thesis by (simp add: initial_state_def)
  qed simp
  then show ?thesis by (simp add: scrapeUrlsForKeyword_def endless_page_def)
qed

section \<open>The batch and the failures of its items\<close>







end
